theory Spec2Isabelle
  imports Main "HOL-Library.Word"
begin

section \<open>Byte buffers and the \<open>struct\<close> module\<close>

text \<open>
  Both scripts, \<^verbatim>\<open>create-icns.py\<close> and \<^verbatim>\<open>create-ico.py\<close>, work on Python \<open>bytes\<close>
  objects. A byte is an 8-bit word, a buffer is a list of bytes. Python integers are
  unbounded and every integer of the two scripts is a length or an unpacked unsigned
  field, so they are natural numbers. The only exception either function can raise by
  itself is \<open>struct.error\<close> (file-system errors belong to the caller and are not modelled:
  the files that have been read are the input buffers, in the order of \<open>png_files\<close>).
\<close>

type_synonym byte = "8 word"

datatype error = StructError

text \<open>A bytes literal such as \<^verbatim>\<open>b'icns'\<close>.\<close>

definition bytes :: "string \<Rightarrow> byte list" where
  "bytes s = map of_char s"

text \<open>The slice \<^verbatim>\<open>data[i:j]\<close> for \<open>0 \<le> i \<le> j\<close>: it never raises, it is just shorter
  when the buffer ends early.\<close>

definition py_slice :: "'a list \<Rightarrow> nat \<Rightarrow> nat \<Rightarrow> 'a list" where
  "py_slice xs i j = take (j - i) (drop i xs)"

text \<open>Little-endian and big-endian encodings of a number on \<open>k\<close> bytes, and the value of a
  byte string read in either order.\<close>

fun le_bytes :: "nat \<Rightarrow> nat \<Rightarrow> byte list" where
  "le_bytes 0 n = []"
| "le_bytes (Suc k) n = of_nat (n mod 256) # le_bytes k (n div 256)"

definition be_bytes :: "nat \<Rightarrow> nat \<Rightarrow> byte list" where
  "be_bytes k n = rev (le_bytes k n)"

fun le_nat :: "byte list \<Rightarrow> nat" where
  "le_nat [] = 0"
| "le_nat (b # bs) = unat b + 256 * le_nat bs"

definition be_nat :: "byte list \<Rightarrow> nat" where
  "be_nat bs = le_nat (rev bs)"

text \<open>\<^verbatim>\<open>struct.unpack('>I', bs)[0]\<close>: raises \<open>struct.error\<close> unless the buffer has
  exactly 4 bytes.\<close>

definition unpack_be32 :: "byte list \<Rightarrow> error + nat" where
  "unpack_be32 bs = (if length bs = 4 then Inr (be_nat bs) else Inl StructError)"

text \<open>\<^verbatim>\<open>struct.pack('>I', n)\<close>: raises \<open>struct.error\<close> when \<open>n\<close> does not fit 32 bits.\<close>

definition pack_be32 :: "nat \<Rightarrow> error + byte list" where
  "pack_be32 n = (if n < 2 ^ 32 then Inr (be_bytes 4 n) else Inl StructError)"

text \<open>\<^verbatim>\<open>struct.pack('<HHH', a, b, c)\<close>: three little-endian 16-bit fields.\<close>

definition pack_HHH :: "nat \<Rightarrow> nat \<Rightarrow> nat \<Rightarrow> error + byte list" where
  "pack_HHH a b c =
     (if a < 2 ^ 16 \<and> b < 2 ^ 16 \<and> c < 2 ^ 16
      then Inr (le_bytes 2 a @ le_bytes 2 b @ le_bytes 2 c)
      else Inl StructError)"

text \<open>\<^verbatim>\<open>struct.pack('<BBBBHHII', ...)\<close>: little-endian, standard sizes, no padding;
  every argument must fit its field.\<close>

definition pack_BBBBHHII ::
  "nat \<Rightarrow> nat \<Rightarrow> nat \<Rightarrow> nat \<Rightarrow> nat \<Rightarrow> nat \<Rightarrow> nat \<Rightarrow> nat \<Rightarrow> error + byte list" where
  "pack_BBBBHHII a b c d e f g h =
     (if a < 2 ^ 8 \<and> b < 2 ^ 8 \<and> c < 2 ^ 8 \<and> d < 2 ^ 8 \<and> e < 2 ^ 16 \<and> f < 2 ^ 16
         \<and> g < 2 ^ 32 \<and> h < 2 ^ 32
      then Inr (le_bytes 1 a @ le_bytes 1 b @ le_bytes 1 c @ le_bytes 1 d
                @ le_bytes 2 e @ le_bytes 2 f @ le_bytes 4 g @ le_bytes 4 h)
      else Inl StructError)"

text \<open>The PNG signature \<^verbatim>\<open>b'\x89PNG\r\n\x1a\n'\<close> and the test \<^verbatim>\<open>data[:8] == ...\<close>
  both scripts make.\<close>

definition png_signature :: "byte list" where
  "png_signature = [0x89, 0x50, 0x4E, 0x47, 0x0D, 0x0A, 0x1A, 0x0A]"

definition is_png :: "byte list \<Rightarrow> bool" where
  "is_png data \<longleftrightarrow> take 8 data = png_signature"

text \<open>
  What a call leaves behind: the content of the output file when the call opened it
  (\<open>None\<close> when the file was never opened), and the exception that left the function, if
  any.
\<close>

record run =
  written :: "byte list option"
  raised :: "error option"


section \<open>\<^verbatim>\<open>create-icns.py\<close>\<close>

definition icon_types :: "nat \<rightharpoonup> byte list" where
  "icon_types =
     [16 \<mapsto> bytes ''icp4'',
      32 \<mapsto> bytes ''icp5'',
      48 \<mapsto> bytes ''icp6'',
      128 \<mapsto> bytes ''ic07'',
      256 \<mapsto> bytes ''ic08'',
      512 \<mapsto> bytes ''ic09'',
      1024 \<mapsto> bytes ''ic10'']"

text \<open>\<^verbatim>\<open>icon_types.get(width, b'ic09')\<close>\<close>

definition icon_type_of :: "nat \<Rightarrow> byte list" where
  "icon_type_of width = (case icon_types width of Some t \<Rightarrow> t | None \<Rightarrow> bytes ''ic09'')"

record icns_state =
  entries :: "byte list list"
  total_size :: nat

text \<open>The body of the loop over \<open>png_files\<close>, for one buffer that has been read.\<close>

definition icns_step :: "icns_state \<Rightarrow> byte list \<Rightarrow> error + icns_state" where
  "icns_step st data =
     (if take 8 data = png_signature then
        (case unpack_be32 (py_slice data 16 20) of
           Inl e \<Rightarrow> Inl e
         | Inr width \<Rightarrow>
             (let icon_type = icon_type_of width;
                  entry_size = 8 + length data
              in case pack_be32 entry_size of
                   Inl e \<Rightarrow> Inl e
                 | Inr packed \<Rightarrow>
                     Inr \<lparr>entries = entries st @ [icon_type @ packed @ data],
                          total_size = total_size st + entry_size\<rparr>))
      else Inr st)"

fun icns_loop :: "byte list list \<Rightarrow> icns_state \<Rightarrow> error + icns_state" where
  "icns_loop [] st = Inr st"
| "icns_loop (data # rest) st =
     (case icns_step st data of Inl e \<Rightarrow> Inl e | Inr st' \<Rightarrow> icns_loop rest st')"

text \<open>
  \<open>create_icns\<close>: the loop runs before the output file is opened, so an exception in the
  loop leaves no file. The file is then opened and \<^verbatim>\<open>b'icns'\<close> written before
  \<open>total_size\<close> is packed, so an exception of that \<open>struct.pack\<close> leaves a file that holds
  the magic only.
\<close>

definition create_icns :: "byte list list \<Rightarrow> run" where
  "create_icns png_files =
     (case icns_loop png_files \<lparr>entries = [], total_size = 8\<rparr> of
        Inl e \<Rightarrow> \<lparr>written = None, raised = Some e\<rparr>
      | Inr st \<Rightarrow>
          (case pack_be32 (total_size st) of
             Inl e \<Rightarrow> \<lparr>written = Some (bytes ''icns''), raised = Some e\<rparr>
           | Inr packed \<Rightarrow>
               \<lparr>written = Some (bytes ''icns'' @ packed @ concat (entries st)),
                raised = None\<rparr>))"


section \<open>\<^verbatim>\<open>create-ico.py\<close>\<close>

type_synonym image = "nat \<times> nat \<times> byte list"

text \<open>The body of the first loop: read the dimensions of one buffer.\<close>

definition read_image :: "image list \<Rightarrow> byte list \<Rightarrow> error + image list" where
  "read_image images data =
     (if take 8 data = png_signature then
        (let width = py_slice data 16 20;
             height = py_slice data 20 24
         in case unpack_be32 width of
              Inl e \<Rightarrow> Inl e
            | Inr w \<Rightarrow>
                (case unpack_be32 height of
                   Inl e \<Rightarrow> Inl e
                 | Inr h \<Rightarrow> Inr (images @ [(w, h, data)])))
      else Inr images)"

fun read_images :: "byte list list \<Rightarrow> image list \<Rightarrow> error + image list" where
  "read_images [] images = Inr images"
| "read_images (data # rest) images =
     (case read_image images data of
        Inl e \<Rightarrow> Inl e
      | Inr images' \<Rightarrow> read_images rest images')"

record ico_state =
  offset :: nat
  dir_entries :: "byte list"
  data_block :: "byte list"

text \<open>The body of the second loop (the source's \<open>entries\<close> is \<open>dir_entries\<close> here).\<close>

definition ico_step :: "ico_state \<Rightarrow> image \<Rightarrow> error + ico_state" where
  "ico_step st img =
     (case img of (width, height, img_data) \<Rightarrow>
        (let w = (if width < 256 then width else 0);
             h = (if height < 256 then height else 0)
         in case pack_BBBBHHII w h 0 0 1 32 (length img_data) (offset st) of
              Inl e \<Rightarrow> Inl e
            | Inr entry \<Rightarrow>
                Inr \<lparr>offset = offset st + length img_data,
                     dir_entries = dir_entries st @ entry,
                     data_block = data_block st @ img_data\<rparr>))"

fun ico_loop :: "image list \<Rightarrow> ico_state \<Rightarrow> error + ico_state" where
  "ico_loop [] st = Inr st"
| "ico_loop (img # rest) st =
     (case ico_step st img of Inl e \<Rightarrow> Inl e | Inr st' \<Rightarrow> ico_loop rest st')"

text \<open>
  \<open>create_ico\<close>: \<^verbatim>\<open>if not images: return\<close> leaves the function before anything is packed
  or opened; the header and the directory are packed before the file is opened, so an
  exception leaves no file.
\<close>

definition create_ico :: "byte list list \<Rightarrow> run" where
  "create_ico png_files =
     (case read_images png_files [] of
        Inl e \<Rightarrow> \<lparr>written = None, raised = Some e\<rparr>
      | Inr images \<Rightarrow>
          if images = [] then \<lparr>written = None, raised = None\<rparr>
          else
            (case pack_HHH 0 1 (length images) of
               Inl e \<Rightarrow> \<lparr>written = None, raised = Some e\<rparr>
             | Inr ico_header \<Rightarrow>
                 (case ico_loop images
                         \<lparr>offset = 6 + length images * 16, dir_entries = [], data_block = []\<rparr> of
                    Inl e \<Rightarrow> \<lparr>written = None, raised = Some e\<rparr>
                  | Inr st \<Rightarrow>
                      \<lparr>written = Some (ico_header @ dir_entries st @ data_block st),
                       raised = None\<rparr>)))"



section \<open>Reading fields back, and auxiliary closed forms\<close>

text \<open>
  The definitions of this section are not part of the scripts. The first three read a
  field of a finished buffer the way a decoder of the container would; the theorems
  below state the layout of the output with them.
\<close>

definition be32_at :: "byte list \<Rightarrow> nat \<Rightarrow> nat" where
  "be32_at buf pos = be_nat (py_slice buf pos (pos + 4))"

definition le32_at :: "byte list \<Rightarrow> nat \<Rightarrow> nat" where
  "le32_at buf pos = le_nat (py_slice buf pos (pos + 4))"

definition le16_at :: "byte list \<Rightarrow> nat \<Rightarrow> nat" where
  "le16_at buf pos = le_nat (py_slice buf pos (pos + 2))"

definition u8_at :: "byte list \<Rightarrow> nat \<Rightarrow> nat" where
  "u8_at buf pos = le_nat (py_slice buf pos (pos + 1))"

text \<open>The payloads both encoders retain: the buffers that pass the signature test, in
  input order.\<close>

definition retained :: "byte list list \<Rightarrow> byte list list" where
  "retained png_files = filter is_png png_files"

text \<open>Closed forms of what one iteration of each loop appends when nothing raises; they
  are used in the proofs only.\<close>

definition icns_entry :: "byte list \<Rightarrow> byte list" where
  "icns_entry data = icon_type_of (be32_at data 16) @ be_bytes 4 (8 + length data) @ data"

definition image_of :: "byte list \<Rightarrow> image" where
  "image_of data = (be32_at data 16, be32_at data 20, data)"

definition ico_entry :: "byte list \<Rightarrow> nat \<Rightarrow> byte list" where
  "ico_entry data pos =
     le_bytes 1 (if be32_at data 16 < 256 then be32_at data 16 else 0)
     @ le_bytes 1 (if be32_at data 20 < 256 then be32_at data 20 else 0)
     @ le_bytes 1 0 @ le_bytes 1 0 @ le_bytes 2 1 @ le_bytes 2 32
     @ le_bytes 4 (length data) @ le_bytes 4 pos"

fun ico_dir :: "nat \<Rightarrow> byte list list \<Rightarrow> byte list list" where
  "ico_dir pos [] = []"
| "ico_dir pos (data # rest) = ico_entry data pos # ico_dir (pos + length data) rest"

fun ico_fits :: "nat \<Rightarrow> byte list list \<Rightarrow> bool" where
  "ico_fits pos [] \<longleftrightarrow> True"
| "ico_fits pos (data # rest) \<longleftrightarrow>
     length data < 2 ^ 32 \<and> pos < 2 ^ 32 \<and> ico_fits (pos + length data) rest"

text \<open>The file \<open>create_ico\<close> writes for the retained payloads \<open>ps\<close> when nothing raises.\<close>

definition ico_file :: "byte list list \<Rightarrow> byte list" where
  "ico_file ps =
     (le_bytes 2 0 @ le_bytes 2 1 @ le_bytes 2 (length ps))
     @ concat (ico_dir (6 + length ps * 16) ps) @ concat ps"

text \<open>Sample buffers: the first 24 bytes of a PNG stream of the given dimensions (the
  signature, then the length and the tag of the header chunk, then width and height),
  and a buffer that is not a PNG stream.\<close>

definition png_stub :: "nat \<Rightarrow> nat \<Rightarrow> byte list" where
  "png_stub w h = png_signature @ [0, 0, 0, 13] @ bytes ''IHDR'' @ be_bytes 4 w @ be_bytes 4 h"

definition not_png :: "byte list" where
  "not_png = bytes ''GIF89a''"



section \<open>Encoding and decoding of integers\<close>

lemma length_le_bytes [simp]: "length (le_bytes k n) = k"
  by (induction k arbitrary: n) simp_all

lemma length_be_bytes [simp]: "length (be_bytes k n) = k"
  by (simp add: be_bytes_def)

lemma unat_byte_of_nat: "unat (of_nat (n mod 256) :: byte) = n mod 256"
  by (simp add: unat_of_nat)

lemma le_nat_le_bytes: "le_nat (le_bytes k n) = n mod 256 ^ k"
proof (induction k arbitrary: n)
  case 0
  show ?case by simp
next
  case (Suc k)
  have "le_nat (le_bytes (Suc k) n) = n mod 256 + 256 * (n div 256 mod 256 ^ k)"
    by (simp add: Suc unat_byte_of_nat)
  also have "\<dots> = n mod (256 * 256 ^ k)"
    by (simp add: mod_mult2_eq)
  finally show ?case by simp
qed

lemma be_nat_be_bytes: "n < 256 ^ k \<Longrightarrow> be_nat (be_bytes k n) = n"
  by (simp add: be_nat_def be_bytes_def le_nat_le_bytes)

lemma length_slice: "length (py_slice xs i j) = min (j - i) (length xs - i)"
  by (simp add: py_slice_def)

lemma unpack_slice16: "unpack_be32 (py_slice d 16 20) = (if 20 \<le> length d then Inr (be32_at d 16) else Inl StructError)"
  by (auto simp: unpack_be32_def be32_at_def length_slice)

lemma unpack_slice20: "unpack_be32 (py_slice d 20 24) = (if 24 \<le> length d then Inr (be32_at d 20) else Inl StructError)"
  by (auto simp: unpack_be32_def be32_at_def length_slice)

lemma icns_step_eq:
  "icns_step st d =
     (if is_png d then
        (if 20 \<le> length d \<and> 8 + length d < 2 ^ 32
         then Inr \<lparr>entries = entries st @ [icns_entry d],
                   total_size = total_size st + (8 + length d)\<rparr>
         else Inl StructError)
      else Inr st)"
  by (simp add: icns_step_def is_png_def unpack_slice16 pack_be32_def icns_entry_def Let_def)

lemma icns_loop_eq:
  "icns_loop ds st =
     (if \<forall>d\<in>set ds. is_png d \<longrightarrow> 20 \<le> length d \<and> 8 + length d < 2 ^ 32
      then Inr \<lparr>entries = entries st @ map icns_entry (filter is_png ds),
                total_size = total_size st + (\<Sum>d\<leftarrow>filter is_png ds. 8 + length d)\<rparr>
      else Inl StructError)"
proof (induction ds arbitrary: st)
  case Nil
  show ?case by simp
next
  case (Cons d ds)
  show ?case
  proof (cases "is_png d")
    case False
    then show ?thesis by (simp add: icns_step_eq Cons.IH)
  next
    case True
    then show ?thesis by (simp add: icns_step_eq Cons.IH)
  qed
qed

lemma read_image_eq:
  "read_image imgs d =
     (if is_png d then
        (if 24 \<le> length d then Inr (imgs @ [image_of d]) else Inl StructError)
      else Inr imgs)"
  by (simp add: read_image_def is_png_def unpack_slice16 unpack_slice20 image_of_def Let_def)

lemma read_images_eq:
  "read_images ds imgs =
     (if \<forall>d\<in>set ds. is_png d \<longrightarrow> 24 \<le> length d
      then Inr (imgs @ map image_of (filter is_png ds))
      else Inl StructError)"
proof (induction ds arbitrary: imgs)
  case Nil
  show ?case by simp
next
  case (Cons d ds)
  show ?case by (cases "is_png d") (simp_all add: read_image_eq Cons.IH)
qed

lemma ico_step_eq:
  "ico_step st (image_of d) =
     (if length d < 2 ^ 32 \<and> offset st < 2 ^ 32
      then Inr \<lparr>offset = offset st + length d,
                dir_entries = dir_entries st @ ico_entry d (offset st),
                data_block = data_block st @ d\<rparr>
      else Inl StructError)"
  by (simp add: ico_step_def image_of_def pack_BBBBHHII_def ico_entry_def Let_def)

lemma ico_loop_eq:
  "ico_loop (map image_of ds) st =
     (if ico_fits (offset st) ds
      then Inr \<lparr>offset = offset st + length (concat ds),
                dir_entries = dir_entries st @ concat (ico_dir (offset st) ds),
                data_block = data_block st @ concat ds\<rparr>
      else Inl StructError)"
proof (induction ds arbitrary: st)
  case Nil
  show ?case by simp
next
  case (Cons d ds)
  show ?case by (simp add: ico_step_eq Cons.IH add.assoc)
qed



section \<open>Fields of the two layouts\<close>

lemma slice_append_right: "py_slice (xs @ ys) (length xs + i) (length xs + j) = py_slice ys i j"
  by (simp add: py_slice_def)

lemma slice_append_left: "j \<le> length xs \<Longrightarrow> py_slice (xs @ ys) i j = py_slice xs i j"
  by (simp add: py_slice_def)

lemma slice_whole: "py_slice (xs @ ys) 0 (length xs) = xs"
  by (simp add: py_slice_def)

lemma slice4_nth:
  assumes "pos + 4 \<le> length d"
  shows "py_slice d pos (pos + 4) = [d ! pos, d ! (pos + 1), d ! (pos + 2), d ! (pos + 3)]"
proof -
  have "length (py_slice d pos (pos + 4)) = 4"
    using assms by (simp add: length_slice)
  moreover have "py_slice d pos (pos + 4) ! i = d ! (pos + i)" if "i < 4" for i
    using that assms by (simp add: py_slice_def)
  ultimately show ?thesis
    by (simp add: list_eq_iff_nth_eq nth_Cons' less_Suc_eq numeral_eq_Suc add.commute)
qed

lemma be32_at_nth:
  "pos + 4 \<le> length d \<Longrightarrow>
   be32_at d pos = unat (d ! pos) * 2 ^ 24 + unat (d ! (pos + 1)) * 2 ^ 16
                   + unat (d ! (pos + 2)) * 2 ^ 8 + unat (d ! (pos + 3))"
  by (simp add: be32_at_def slice4_nth be_nat_def)

lemma length_icon_type_of [simp]: "length (icon_type_of w) = 4"
  by (simp add: icon_type_of_def icon_types_def bytes_def)

lemma length_icns_entry [simp]: "length (icns_entry d) = 8 + length d"
  by (simp add: icns_entry_def)

lemma drop8_icns_entry [simp]: "drop 8 (icns_entry d) = d"
  by (simp add: icns_entry_def)

lemma take4_icns_entry: "take 4 (icns_entry d) = icon_type_of (be32_at d 16)"
  by (simp add: icns_entry_def)

lemma be32_at_icns_entry: "8 + length d < 2 ^ 32 \<Longrightarrow> be32_at (icns_entry d) 4 = 8 + length d"
  by (simp add: icns_entry_def be32_at_def py_slice_def be_nat_be_bytes)

lemma le_nat_le_bytes_small: "n < 256 ^ k \<Longrightarrow> le_nat (le_bytes k n) = n"
  by (simp add: le_nat_le_bytes)

lemma length_ico_entry [simp]: "length (ico_entry d pos) = 16"
  by (simp add: ico_entry_def)

lemma length_concat_ico_dir [simp]: "length (concat (ico_dir pos ps)) = 16 * length ps"
  by (induction ps arbitrary: pos) simp_all

lemma slice_ico_dir:
  "k < length ps \<Longrightarrow> j \<le> 16 \<Longrightarrow>
   py_slice (concat (ico_dir pos ps)) (16 * k + i) (16 * k + j)
   = py_slice (ico_entry (ps ! k) (pos + length (concat (take k ps)))) i j"
proof (induction ps arbitrary: pos k)
  case Nil
  then show ?case by simp
next
  case (Cons d ps)
  show ?case
  proof (cases k)
    case 0
    then show ?thesis using Cons.prems by (simp add: slice_append_left)
  next
    case (Suc k')
    have "py_slice (concat (ico_dir pos (d # ps))) (16 * k + i) (16 * k + j)
          = py_slice (ico_entry d pos @ concat (ico_dir (pos + length d) ps))
              (length (ico_entry d pos) + (16 * k' + i)) (length (ico_entry d pos) + (16 * k' + j))"
      by (simp add: Suc add.assoc)
    also have "\<dots> = py_slice (concat (ico_dir (pos + length d) ps)) (16 * k' + i) (16 * k' + j)"
      by (rule slice_append_right)
    also have "\<dots> = py_slice (ico_entry (ps ! k') (pos + length d + length (concat (take k' ps)))) i j"
      using Cons.prems Suc by (intro Cons.IH) simp_all
    finally show ?thesis by (simp add: Suc add.assoc)
  qed
qed

lemma ico_fits_nth:
  "ico_fits pos ps \<Longrightarrow> k < length ps \<Longrightarrow>
   length (ps ! k) < 2 ^ 32 \<and> pos + length (concat (take k ps)) < 2 ^ 32"
proof (induction ps arbitrary: pos k)
  case Nil
  then show ?case by simp
next
  case (Cons d ps)
  show ?case
  proof (cases k)
    case 0
    then show ?thesis using Cons.prems by simp
  next
    case (Suc k')
    then show ?thesis using Cons.prems Cons.IH [of "pos + length d" k'] by (simp add: add.assoc)
  qed
qed

lemma ico_fits_total:
  "pos + length (concat ps) < 2 ^ 32 \<Longrightarrow> ico_fits pos ps"
proof (induction ps arbitrary: pos)
  case Nil
  show ?case by simp
next
  case (Cons d ps)
  have "ico_fits (pos + length d) ps"
    using Cons.prems by (intro Cons.IH) (simp_all add: add.assoc)
  then show ?case using Cons.prems by simp
qed

lemma slice_concat_nth:
  "k < length ps \<Longrightarrow>
   py_slice (concat ps) (length (concat (take k ps))) (length (concat (take k ps)) + length (ps ! k))
   = ps ! k"
proof -
  assume k: "k < length ps"
  have "concat ps = concat (take k ps) @ (ps ! k @ concat (drop (Suc k) ps))"
    using k by (subst id_take_nth_drop [OF k]) simp
  then show ?thesis
    by (simp add: py_slice_def)
qed

lemma length_concat_sum: "length (concat ps) = sum_list (map length ps)"
  by (simp add: length_concat)

section \<open>Both encoders in closed form\<close>

lemma create_icns_eq:
  "create_icns png_files =
     (if \<forall>d\<in>set png_files. is_png d \<longrightarrow> 20 \<le> length d \<and> 8 + length d < 2 ^ 32
      then
        (if 8 + (\<Sum>d\<leftarrow>retained png_files. 8 + length d) < 2 ^ 32
         then \<lparr>written = Some (bytes ''icns''
                               @ be_bytes 4 (8 + (\<Sum>d\<leftarrow>retained png_files. 8 + length d))
                               @ concat (map icns_entry (retained png_files))),
               raised = None\<rparr>
         else \<lparr>written = Some (bytes ''icns''), raised = Some StructError\<rparr>)
      else \<lparr>written = None, raised = Some StructError\<rparr>)"
  by (simp add: create_icns_def icns_loop_eq pack_be32_def retained_def)

lemma create_ico_eq:
  "create_ico png_files =
     (if \<forall>d\<in>set png_files. is_png d \<longrightarrow> 24 \<le> length d
      then
        (if retained png_files = [] then \<lparr>written = None, raised = None\<rparr>
         else if length (retained png_files) < 2 ^ 16
                 \<and> ico_fits (6 + length (retained png_files) * 16) (retained png_files)
         then \<lparr>written = Some (le_bytes 2 0 @ le_bytes 2 1 @ le_bytes 2 (length (retained png_files))
                               @ concat (ico_dir (6 + length (retained png_files) * 16)
                                           (retained png_files))
                               @ concat (retained png_files)),
               raised = None\<rparr>
         else \<lparr>written = None, raised = Some StructError\<rparr>)
      else \<lparr>written = None, raised = Some StructError\<rparr>)"
  by (simp add: create_ico_def read_images_eq ico_loop_eq pack_HHH_def retained_def)

lemma is_png_signature: "is_png png_signature"
  by (simp add: is_png_def png_signature_def)

lemma is_png_stub: "is_png (png_stub w h)"
  by (simp add: is_png_def png_stub_def png_signature_def)

lemma length_png_stub: "length (png_stub w h) = 24"
  by (simp add: png_stub_def png_signature_def bytes_def)

lemma not_is_png_not_png: "\<not> is_png not_png"
  by (simp add: is_png_def not_png_def png_signature_def bytes_def)

lemma be32_at_png_stub:
  "w < 2 ^ 32 \<Longrightarrow> be32_at (png_stub w h) 16 = w"
  "h < 2 ^ 32 \<Longrightarrow> be32_at (png_stub w h) 20 = h"
  by (simp_all add: png_stub_def png_signature_def bytes_def be32_at_def py_slice_def be_nat_be_bytes)

lemma le_bytes_numeral:
  "le_bytes (numeral k) n = of_nat (n mod 256) # le_bytes (pred_numeral k) (n div 256)"
  by (simp only: numeral_eq_Suc [of k] le_bytes.simps)

lemma le_bytes_1: "le_bytes 1 n = [of_nat (n mod 256)]"
  by simp

lemma create_icns_raises:
  "d \<in> set png_files \<Longrightarrow> is_png d \<Longrightarrow> length d < 20 \<Longrightarrow>
   create_icns png_files = \<lparr>written = None, raised = Some StructError\<rparr>"
proof -
  assume "d \<in> set png_files" "is_png d" "length d < 20"
  then have "\<not> (\<forall>d\<in>set png_files. is_png d \<longrightarrow> 20 \<le> length d \<and> 8 + length d < 2 ^ 32)"
    by force
  then show ?thesis by (simp only: create_icns_eq if_False)
qed

lemma create_ico_raises:
  "d \<in> set png_files \<Longrightarrow> is_png d \<Longrightarrow> length d < 24 \<Longrightarrow>
   create_ico png_files = \<lparr>written = None, raised = Some StructError\<rparr>"
proof -
  assume "d \<in> set png_files" "is_png d" "length d < 24"
  then have "\<not> (\<forall>d\<in>set png_files. is_png d \<longrightarrow> 24 \<le> length d)"
    by force
  then show ?thesis by (simp only: create_ico_eq if_False)
qed


section \<open>Empty input\<close>

text \<open>
  Claim C3 says that \<open>create_icns\<close>, given an empty sequence, reports \<open>EmptyInput\<close> and
  writes nothing. The function has no such check: with no image the loop leaves
  \<open>entries\<close> empty and \<open>total_size\<close> at 8, and the file is written all the same. At the
  empty sequence nothing is raised and the output file holds the magic and the length 8.
\<close>

theorem create_icns_empty_cex:
  "raised (create_icns []) = None \<and> written (create_icns []) = Some (bytes ''icns'' @ [0, 0, 0, 8])"
  by (simp add: create_icns_eq retained_def be_bytes_def le_bytes_numeral)

text \<open>
  Claim C3 as amended: given zero images (an empty sequence, or one in which no buffer has
  the PNG signature) \<open>create_icns\<close> raises nothing and writes a file of exactly 8 bytes,
  the magic \<^verbatim>\<open>icns\<close> followed by the big-endian total length 8, with no entry.
\<close>

theorem create_icns_nothing_retained:
  "retained png_files = [] \<Longrightarrow>
   \<exists>out. create_icns png_files = \<lparr>written = Some out, raised = None\<rparr>
         \<and> length out = 8 \<and> py_slice out 0 4 = bytes ''icns'' \<and> be32_at out 4 = 8"
proof -
  assume r: "retained png_files = []"
  then have "\<forall>d\<in>set png_files. \<not> is_png d"
    by (simp add: retained_def filter_empty_conv)
  then have "create_icns png_files
             = \<lparr>written = Some (bytes ''icns'' @ be_bytes 4 8 @ []), raised = None\<rparr>"
    using r by (simp add: create_icns_eq)
  moreover have "be32_at (bytes ''icns'' @ be_bytes 4 8 @ []) 4 = 8"
    by (simp add: be32_at_def py_slice_def bytes_def be_nat_be_bytes)
  moreover have "py_slice (bytes ''icns'' @ be_bytes 4 8 @ []) 0 4 = bytes ''icns''"
    by (simp add: py_slice_def bytes_def)
  moreover have "length (bytes ''icns'' @ be_bytes 4 8 @ []) = 8"
    by (simp add: bytes_def)
  ultimately show ?thesis by blast
qed

theorem create_icns_nothing_retained_witness:
  "retained [not_png] = [] \<and>
   (\<exists>out. create_icns [not_png] = \<lparr>written = Some out, raised = None\<rparr>
         \<and> length out = 8 \<and> py_slice out 0 4 = bytes ''icns'' \<and> be32_at out 4 = 8)"
proof -
  have r: "retained [not_png] = []"
    by (simp add: retained_def not_is_png_not_png)
  from r create_icns_nothing_retained [OF r] show ?thesis by blast
qed

text \<open>
  Claim C8: when no buffer of the input passes the signature test, \<open>create_ico\<close> returns
  at \<^verbatim>\<open>if not images: return\<close>: no file is opened and nothing is raised.
\<close>

theorem create_ico_nothing_retained:
  "retained png_files = [] \<Longrightarrow> create_ico png_files = \<lparr>written = None, raised = None\<rparr>"
proof -
  assume r: "retained png_files = []"
  then have "\<forall>d\<in>set png_files. \<not> is_png d"
    by (simp add: retained_def filter_empty_conv)
  then show ?thesis using r by (simp add: create_ico_eq)
qed

theorem create_ico_nothing_retained_witness:
  "retained [not_png, take 7 png_signature] = []
   \<and> create_ico [not_png, take 7 png_signature] = \<lparr>written = None, raised = None\<rparr>"
proof -
  have r: "retained [not_png, take 7 png_signature] = []"
    using not_is_png_not_png by (simp add: retained_def is_png_def png_signature_def)
  from r create_ico_nothing_retained [OF r] show ?thesis by blast
qed

text \<open>
  Claim C9 says that \<open>create_ico\<close>, given zero images, produces a container made of a
  6-byte header with count 0. It does not: at the empty sequence no file is written at
  all, so in particular not the header \<open>00 00 01 00 00 00\<close>.
\<close>

theorem create_ico_empty_cex:
  "written (create_ico []) = None \<and> written (create_ico []) \<noteq> Some [0, 0, 1, 0, 0, 0]"
  by (simp add: create_ico_def)

text \<open>
  Claim C9 as amended: given zero images \<open>create_ico\<close> does not fail and writes nothing,
  neither header nor directory nor payload; and whenever it does write a file, the count
  field of the header is at least 1.
\<close>

theorem create_ico_never_count_zero:
  "create_ico [] = \<lparr>written = None, raised = None\<rparr>
   \<and> (written (create_ico png_files) = Some out \<longrightarrow> 0 < le16_at out 4)"
proof
  show "create_ico [] = \<lparr>written = None, raised = None\<rparr>"
    by (simp add: create_ico_def)
  show "written (create_ico png_files) = Some out \<longrightarrow> 0 < le16_at out 4"
  proof
    assume w: "written (create_ico png_files) = Some out"
    let ?ps = "retained png_files"
    let ?hd = "le_bytes 2 0 @ le_bytes 2 1"
    from w have ne: "?ps \<noteq> []" and n: "length ?ps < 2 ^ 16"
      and out: "out = ?hd @ le_bytes 2 (length ?ps)
                      @ concat (ico_dir (6 + length ?ps * 16) ?ps) @ concat ?ps"
      by (auto simp: create_ico_eq split: if_splits)
    have "le16_at out 4 = le_nat (py_slice (le_bytes 2 (length ?ps)
                      @ concat (ico_dir (6 + length ?ps * 16) ?ps) @ concat ?ps) 0 2)"
      unfolding le16_at_def out using slice_append_right [of ?hd _ 0 2] by simp
    also have "\<dots> = le_nat (le_bytes 2 (length ?ps))"
      using slice_whole [of "le_bytes 2 (length ?ps)"] by simp
    also have "\<dots> = length ?ps"
      using n by (simp add: le_nat_le_bytes)
    finally show "0 < le16_at out 4" using ne by simp
  qed
qed

theorem create_ico_never_count_zero_witness:
  "create_ico [] = \<lparr>written = None, raised = None\<rparr>
   \<and> written (create_ico [png_stub 16 16])
       = Some (the (written (create_ico [png_stub 16 16])))
   \<and> 0 < le16_at (the (written (create_ico [png_stub 16 16]))) 4"
proof -
  have "\<forall>d\<in>set [png_stub 16 16]. is_png d \<longrightarrow> 24 \<le> length d"
    by (simp add: length_png_stub)
  moreover have "retained [png_stub 16 16] = [png_stub 16 16]"
    by (simp add: retained_def is_png_stub)
  ultimately have w: "written (create_ico [png_stub 16 16])
                      = Some (the (written (create_ico [png_stub 16 16])))"
    by (simp add: create_ico_eq length_png_stub)
  from w create_ico_never_count_zero [of "[png_stub 16 16]"
      "the (written (create_ico [png_stub 16 16]))"]
  show ?thesis by blast
qed


section \<open>Short buffers\<close>

text \<open>
  Claim C10: a buffer that has the PNG signature but ends before the fixed header region
  (fewer than 20 bytes for \<open>create_icns\<close>, which reads the width; fewer than 24 for
  \<open>create_ico\<close>, which reads width and height) is not skipped. The signature test is the
  only test before the slices are unpacked, \<open>struct.unpack\<close> gets fewer than 4 bytes
  and raises, and the call ends there without opening the output file, whatever else
  the input holds.
\<close>

theorem short_png_raises:
  "d \<in> set png_files \<Longrightarrow> is_png d \<Longrightarrow>
   (length d < 20 \<longrightarrow> create_icns png_files = \<lparr>written = None, raised = Some StructError\<rparr>)
   \<and> (length d < 24 \<longrightarrow> create_ico png_files = \<lparr>written = None, raised = Some StructError\<rparr>)"
  using create_icns_raises create_ico_raises by blast

theorem short_png_raises_witness:
  "png_signature \<in> set [png_stub 32 32, png_signature] \<and> is_png png_signature
   \<and> length png_signature < 20 \<and> length png_signature < 24
   \<and> create_icns [png_stub 32 32, png_signature] = \<lparr>written = None, raised = Some StructError\<rparr>
   \<and> create_ico [png_stub 32 32, png_signature] = \<lparr>written = None, raised = Some StructError\<rparr>"
proof -
  have m: "png_signature \<in> set [png_stub 32 32, png_signature]"
    by simp
  have l: "length png_signature < 20" "length png_signature < 24"
    by (simp_all add: png_signature_def)
  from short_png_raises [OF m is_png_signature] m l is_png_signature
  show ?thesis by blast
qed


section \<open>The ICNS container\<close>

lemma icon_type_of_table:
  "icon_type_of 16 = bytes ''icp4''" "icon_type_of 32 = bytes ''icp5''"
  "icon_type_of 48 = bytes ''icp6''" "icon_type_of 128 = bytes ''ic07''"
  "icon_type_of 256 = bytes ''ic08''" "icon_type_of 512 = bytes ''ic09''"
  "icon_type_of 1024 = bytes ''ic10''"
  by (simp_all add: icon_type_of_def icon_types_def)

lemma icon_type_of_default:
  "w \<notin> {16, 32, 48, 128, 256, 512, 1024} \<Longrightarrow> icon_type_of w = bytes ''ic09''"
  by (simp add: icon_type_of_def icon_types_def)

lemma retained_each_fits:
  assumes "8 + (\<Sum>d\<leftarrow>ps. 8 + length d) < (2::nat) ^ 32" and "d \<in> set ps"
  shows "8 + length d < (2::nat) ^ 32"
proof -
  have "8 + length d \<in> set (map (\<lambda>d. 8 + length d) ps)"
    using assms(2) by simp
  then have "8 + length d \<le> (\<Sum>d\<leftarrow>ps. 8 + length d)"
    by (simp add: member_le_sum_list)
  then show ?thesis using assms(1) by simp
qed

lemma create_icns_ok:
  assumes long: "\<forall>d\<in>set png_files. is_png d \<longrightarrow> 20 \<le> length d"
      and fits: "8 + (\<Sum>d\<leftarrow>retained png_files. 8 + length d) < 2 ^ 32"
  shows "create_icns png_files
         = \<lparr>written = Some (bytes ''icns''
                             @ be_bytes 4 (8 + (\<Sum>d\<leftarrow>retained png_files. 8 + length d))
                             @ concat (map icns_entry (retained png_files))),
             raised = None\<rparr>"
proof -
  have "\<forall>d\<in>set png_files. is_png d \<longrightarrow> 20 \<le> length d \<and> 8 + length d < 2 ^ 32"
    using long retained_each_fits [OF fits] by (simp add: retained_def)
  then show ?thesis using fits by (simp add: create_icns_eq)
qed

lemma sum_length_icns_entries:
  "sum_list (map length (map icns_entry ps)) = (\<Sum>d\<leftarrow>ps. 8 + length d)"
  by (simp add: comp_def)

text \<open>
  Claim C1 says that for every input with at least one buffer that starts with the PNG
  signature, \<open>create_icns\<close> emits the magic, the total length and the entries. It does
  not for every such input: a buffer that is the signature and nothing more passes the
  test, \<open>struct.unpack\<close> raises on the empty slice \<^verbatim>\<open>data[16:20]\<close>, and no file is
  written.
\<close>

theorem create_icns_short_cex:
  "is_png png_signature
   \<and> create_icns [png_signature] = \<lparr>written = None, raised = Some StructError\<rparr>"
proof -
  have "length png_signature < 20" by (simp add: png_signature_def)
  then show ?thesis
    using create_icns_raises [of png_signature "[png_signature]"] is_png_signature by simp
qed

text \<open>
  Claim C1 as amended: for every input in which each buffer that starts with the PNG
  signature has at least 20 bytes, and whose total length \<open>8 + \<Sum> (8 + len payload)\<close> fits
  32 bits, \<open>create_icns\<close> raises nothing and writes a file made of the magic \<^verbatim>\<open>icns\<close>,
  the 4-byte big-endian total length, which is 8 plus the sum of the lengths of the
  entries, and the entries, one for each retained buffer in input order; bytes 4 to 8 of
  each entry hold, big-endian, 8 plus the length of the payload, which is the rest of the
  entry after its first 8 bytes and is the retained buffer itself. (The input need not
  hold a PNG buffer for this.)
\<close>

theorem create_icns_layout:
  assumes long: "\<forall>d\<in>set png_files. is_png d \<longrightarrow> 20 \<le> length d"
      and fits: "8 + (\<Sum>d\<leftarrow>retained png_files. 8 + length d) < 2 ^ 32"
  shows "\<exists>out es. create_icns png_files = \<lparr>written = Some out, raised = None\<rparr>
           \<and> out = bytes ''icns'' @ py_slice out 4 8 @ concat es
           \<and> be32_at out 4 = 8 + sum_list (map length es)
           \<and> length es = length (retained png_files)
           \<and> (\<forall>k<length es. be32_at (es ! k) 4 = 8 + length (retained png_files ! k)
                             \<and> drop 8 (es ! k) = retained png_files ! k)"
proof -
  let ?ps = "retained png_files"
  let ?T = "8 + (\<Sum>d\<leftarrow>?ps. 8 + length d)"
  let ?es = "map icns_entry ?ps"
  let ?out = "bytes ''icns'' @ be_bytes 4 ?T @ concat ?es"
  have run: "create_icns png_files = \<lparr>written = Some ?out, raised = None\<rparr>"
    using long fits by (rule create_icns_ok)
  have len: "py_slice ?out 4 8 = be_bytes 4 ?T"
    by (simp add: py_slice_def bytes_def)
  have total: "be32_at ?out 4 = 8 + sum_list (map length ?es)"
  proof -
    have "be32_at ?out 4 = be_nat (be_bytes 4 ?T)"
      by (simp add: be32_at_def py_slice_def bytes_def)
    also have "\<dots> = ?T"
      using fits by (simp add: be_nat_be_bytes)
    finally show ?thesis by (simp only: sum_length_icns_entries)
  qed
  have each: "be32_at (?es ! k) 4 = 8 + length (?ps ! k) \<and> drop 8 (?es ! k) = ?ps ! k"
    if "k < length ?es" for k
  proof -
    from that have k: "k < length ?ps" by simp
    then have "?ps ! k \<in> set ?ps" by simp
    then have "8 + length (?ps ! k) < 2 ^ 32"
      by (rule retained_each_fits [OF fits])
    then show ?thesis using k by (simp add: be32_at_icns_entry)
  qed
  have "?out = bytes ''icns'' @ py_slice ?out 4 8 @ concat ?es"
    by (simp only: len)
  with run total each show ?thesis
    by (intro exI [of _ ?out] exI [of _ ?es]) simp
qed

theorem create_icns_layout_witness:
  "\<not> is_png not_png
   \<and> 20 \<le> length (png_stub 32 32) \<and> 20 \<le> length (png_stub 128 128)
   \<and> 20 \<le> length (png_stub 256 256)
   \<and> retained [png_stub 32 32, not_png, png_stub 128 128, png_stub 256 256]
     = [png_stub 32 32, png_stub 128 128, png_stub 256 256]
   \<and> 8 + (\<Sum>d\<leftarrow>retained [png_stub 32 32, not_png, png_stub 128 128, png_stub 256 256].
            8 + length d) < 2 ^ 32
   \<and> (\<exists>out es. create_icns [png_stub 32 32, not_png, png_stub 128 128, png_stub 256 256]
                 = \<lparr>written = Some out, raised = None\<rparr>
           \<and> out = bytes ''icns'' @ py_slice out 4 8 @ concat es
           \<and> be32_at out 4 = 8 + sum_list (map length es)
           \<and> length es = 3
           \<and> be32_at (es ! 0) 4 = 8 + length (png_stub 32 32)
           \<and> drop 8 (es ! 0) = png_stub 32 32
           \<and> be32_at (es ! 1) 4 = 8 + length (png_stub 128 128)
           \<and> drop 8 (es ! 1) = png_stub 128 128
           \<and> be32_at (es ! 2) 4 = 8 + length (png_stub 256 256)
           \<and> drop 8 (es ! 2) = png_stub 256 256)"
proof -
  let ?W = "[png_stub 32 32, not_png, png_stub 128 128, png_stub 256 256]"
  have long: "\<forall>d\<in>set ?W. is_png d \<longrightarrow> 20 \<le> length d"
    by (simp add: length_png_stub not_is_png_not_png)
  have r: "retained ?W = [png_stub 32 32, png_stub 128 128, png_stub 256 256]"
    by (simp add: retained_def is_png_stub not_is_png_not_png)
  then have fits: "8 + (\<Sum>d\<leftarrow>retained ?W. 8 + length d) < 2 ^ 32"
    by (simp add: length_png_stub)
  from create_icns_layout [OF long fits]
  obtain out es where run: "create_icns ?W = \<lparr>written = Some out, raised = None\<rparr>"
    and out: "out = bytes ''icns'' @ py_slice out 4 8 @ concat es"
    and total: "be32_at out 4 = 8 + sum_list (map length es)"
    and n: "length es = length (retained ?W)"
    and each: "\<forall>k<length es. be32_at (es ! k) 4 = 8 + length (retained ?W ! k)
                             \<and> drop 8 (es ! k) = retained ?W ! k"
    by blast
  from n have n3: "length es = 3" by (simp add: r)
  from each n3 have e0: "be32_at (es ! 0) 4 = 8 + length (png_stub 32 32)
                         \<and> drop 8 (es ! 0) = png_stub 32 32"
    by (auto simp: r dest!: spec [of _ 0])
  from each n3 have e1: "be32_at (es ! 1) 4 = 8 + length (png_stub 128 128)
                         \<and> drop 8 (es ! 1) = png_stub 128 128"
    by (auto simp: r dest!: spec [of _ 1])
  from each n3 have e2: "be32_at (es ! 2) 4 = 8 + length (png_stub 256 256)
                         \<and> drop 8 (es ! 2) = png_stub 256 256"
    by (auto simp: r dest!: spec [of _ 2])
  from run out total n3 e0 e1 e2
  have "\<exists>out es. create_icns ?W = \<lparr>written = Some out, raised = None\<rparr>
           \<and> out = bytes ''icns'' @ py_slice out 4 8 @ concat es
           \<and> be32_at out 4 = 8 + sum_list (map length es)
           \<and> length es = 3
           \<and> be32_at (es ! 0) 4 = 8 + length (png_stub 32 32)
           \<and> drop 8 (es ! 0) = png_stub 32 32
           \<and> be32_at (es ! 1) 4 = 8 + length (png_stub 128 128)
           \<and> drop 8 (es ! 1) = png_stub 128 128
           \<and> be32_at (es ! 2) 4 = 8 + length (png_stub 256 256)
           \<and> drop 8 (es ! 2) = png_stub 256 256"
    by blast
  moreover have "20 \<le> length (png_stub 32 32)" "20 \<le> length (png_stub 128 128)"
    "20 \<le> length (png_stub 256 256)"
    by (simp_all add: length_png_stub)
  ultimately show ?thesis using r fits not_is_png_not_png by (intro conjI)
qed

lemma slice_icns_entries:
  assumes "k < length ps"
  shows "py_slice (pre @ concat (map icns_entry ps))
           (length pre + (\<Sum>d\<leftarrow>take k ps. 8 + length d))
           (length pre + (\<Sum>d\<leftarrow>take k ps. 8 + length d) + 4)
         = icon_type_of (be32_at (ps ! k) 16)"
proof -
  let ?es = "map icns_entry ps"
  have l: "length (concat (take k ?es)) = (\<Sum>d\<leftarrow>take k ps. 8 + length d)"
    by (simp add: take_map length_concat comp_def)
  have k': "k < length ?es" using assms by simp
  have "concat ?es = concat (take k ?es) @ (?es ! k @ concat (drop (Suc k) ?es))"
    by (subst id_take_nth_drop [OF k']) simp
  moreover have "4 \<le> length (?es ! k)"
    using assms by simp
  ultimately have "py_slice (concat ?es) (length (concat (take k ?es)))
               (length (concat (take k ?es)) + 4) = take 4 (?es ! k)"
    by (simp add: py_slice_def)
  then have "py_slice (concat ?es) (\<Sum>d\<leftarrow>take k ps. 8 + length d)
               ((\<Sum>d\<leftarrow>take k ps. 8 + length d) + 4) = icon_type_of (be32_at (ps ! k) 16)"
    using assms by (simp only: l) (simp add: take4_icns_entry)
  then show ?thesis
    using slice_append_right [of pre "concat ?es" "\<Sum>d\<leftarrow>take k ps. 8 + length d"
        "(\<Sum>d\<leftarrow>take k ps. 8 + length d) + 4"]
    by (simp add: add.assoc)
qed

text \<open>
  Claim C4: the type code is a function of the width alone, \<open>icon_type_of\<close>: the seven
  widths of the table give their codes and every other width gives \<^verbatim>\<open>ic09\<close>. In
  the file \<open>create_icns\<close> writes, the entry of the \<open>k\<close>-th retained image starts at 8 plus
  the lengths of the entries before it, and its first 4 bytes are the code of the width
  read at offset 16 of that image. The encoder writes that file whenever every buffer
  with the signature has its 20 bytes and the total length fits 32 bits: no width,
  in the table or not, makes it raise.
\<close>

theorem icon_type_by_width:
  "icon_type_of 16 = bytes ''icp4'' \<and> icon_type_of 32 = bytes ''icp5''
   \<and> icon_type_of 48 = bytes ''icp6'' \<and> icon_type_of 128 = bytes ''ic07''
   \<and> icon_type_of 256 = bytes ''ic08'' \<and> icon_type_of 512 = bytes ''ic09''
   \<and> icon_type_of 1024 = bytes ''ic10''
   \<and> (w \<notin> {16, 32, 48, 128, 256, 512, 1024} \<longrightarrow> icon_type_of w = bytes ''ic09'')
   \<and> ((\<forall>d\<in>set png_files. is_png d \<longrightarrow> 20 \<le> length d)
       \<and> 8 + (\<Sum>d\<leftarrow>retained png_files. 8 + length d) < 2 ^ 32 \<longrightarrow>
        (\<exists>out. create_icns png_files = \<lparr>written = Some out, raised = None\<rparr>
              \<and> (\<forall>k<length (retained png_files).
                    py_slice out (8 + (\<Sum>d\<leftarrow>take k (retained png_files). 8 + length d))
                      (8 + (\<Sum>d\<leftarrow>take k (retained png_files). 8 + length d) + 4)
                    = icon_type_of (be32_at (retained png_files ! k) 16))))"
proof -
  have "\<exists>out. create_icns png_files = \<lparr>written = Some out, raised = None\<rparr>
              \<and> (\<forall>k<length (retained png_files).
                    py_slice out (8 + (\<Sum>d\<leftarrow>take k (retained png_files). 8 + length d))
                      (8 + (\<Sum>d\<leftarrow>take k (retained png_files). 8 + length d) + 4)
                    = icon_type_of (be32_at (retained png_files ! k) 16))"
    if long: "\<forall>d\<in>set png_files. is_png d \<longrightarrow> 20 \<le> length d"
      and fits: "8 + (\<Sum>d\<leftarrow>retained png_files. 8 + length d) < 2 ^ 32"
  proof -
    let ?ps = "retained png_files"
    let ?pre = "bytes ''icns'' @ be_bytes 4 (8 + (\<Sum>d\<leftarrow>?ps. 8 + length d))"
    have run: "create_icns png_files
               = \<lparr>written = Some (?pre @ concat (map icns_entry ?ps)), raised = None\<rparr>"
      using create_icns_ok [OF long fits] by simp
    have l: "length ?pre = 8" by (simp add: bytes_def)
    have "py_slice (?pre @ concat (map icns_entry ?ps))
            (8 + (\<Sum>d\<leftarrow>take k ?ps. 8 + length d))
            (8 + (\<Sum>d\<leftarrow>take k ?ps. 8 + length d) + 4)
          = icon_type_of (be32_at (?ps ! k) 16)" if "k < length ?ps" for k
      using slice_icns_entries [OF that, of ?pre] unfolding l .
    with run show ?thesis by blast
  qed
  then show ?thesis
    using icon_type_of_table icon_type_of_default [of w] by blast
qed

theorem icon_type_by_width_witness:
  "(2000::nat) \<notin> {16, 32, 48, 128, 256, 512, 1024}
   \<and> icon_type_of 2000 = bytes ''ic09''
   \<and> 20 \<le> length (png_stub 2000 2000) \<and> 20 \<le> length (png_stub 16 16)
   \<and> retained [png_stub 2000 2000, png_stub 16 16] = [png_stub 2000 2000, png_stub 16 16]
   \<and> 8 + (\<Sum>d\<leftarrow>retained [png_stub 2000 2000, png_stub 16 16]. 8 + length d) < 2 ^ 32
   \<and> (\<exists>out. create_icns [png_stub 2000 2000, png_stub 16 16]
               = \<lparr>written = Some out, raised = None\<rparr>
            \<and> py_slice out 8 12 = bytes ''ic09''
            \<and> py_slice out 40 44 = bytes ''icp4'')"
proof -
  let ?W = "[png_stub 2000 2000, png_stub 16 16]"
  have n: "(2000::nat) \<notin> {16, 32, 48, 128, 256, 512, 1024}"
    by simp
  have r: "retained ?W = ?W"
    by (simp add: retained_def is_png_stub)
  have l: "20 \<le> length (png_stub 2000 2000)" "20 \<le> length (png_stub 16 16)"
    by (simp_all add: length_png_stub)
  have long: "\<forall>d\<in>set ?W. is_png d \<longrightarrow> 20 \<le> length d"
    by (simp add: length_png_stub)
  have fits: "8 + (\<Sum>d\<leftarrow>retained ?W. 8 + length d) < 2 ^ 32"
    by (simp add: r length_png_stub)
  note t = icon_type_by_width [of 2000 ?W]
  from t n have d: "icon_type_of 2000 = bytes ''ic09''"
    by blast
  from t have c16: "icon_type_of 16 = bytes ''icp4''"
    by blast
  from t long fits
  obtain out where run: "create_icns ?W = \<lparr>written = Some out, raised = None\<rparr>"
    and en: "\<forall>k<length (retained ?W).
                    py_slice out (8 + (\<Sum>d\<leftarrow>take k (retained ?W). 8 + length d))
                      (8 + (\<Sum>d\<leftarrow>take k (retained ?W). 8 + length d) + 4)
                    = icon_type_of (be32_at (retained ?W ! k) 16)"
    by blast
  from en have "py_slice out 8 12 = icon_type_of (be32_at (png_stub 2000 2000) 16)"
    by (auto simp: r dest!: spec [of _ 0])
  then have e0: "py_slice out 8 12 = bytes ''ic09''"
    by (simp add: be32_at_png_stub d)
  from en have "py_slice out 40 44 = icon_type_of (be32_at (png_stub 16 16) 16)"
    by (auto simp: r length_png_stub dest!: spec [of _ 1])
  then have e1: "py_slice out 40 44 = bytes ''icp4''"
    by (simp add: be32_at_png_stub c16)
  from run e0 e1
  have "\<exists>out. create_icns ?W = \<lparr>written = Some out, raised = None\<rparr>
            \<and> py_slice out 8 12 = bytes ''ic09''
            \<and> py_slice out 40 44 = bytes ''icp4''"
    by (intro exI [of _ out] conjI)
  with n d l r fits show ?thesis by (intro conjI)
qed


section \<open>The ICO container\<close>

lemma ico_fits_conv:
  "ico_fits pos ps \<longleftrightarrow>
   (\<forall>k<length ps. length (ps ! k) < 2 ^ 32 \<and> pos + sum_list (map length (take k ps)) < 2 ^ 32)"
proof (induction ps arbitrary: pos)
  case Nil
  show ?case by simp
next
  case (Cons d ps)
  let ?P = "\<lambda>pos ps k. length (ps ! k) < (2::nat) ^ 32
                        \<and> pos + sum_list (map length (take k ps)) < (2::nat) ^ 32"
  have "(\<forall>k<length (d # ps). ?P pos (d # ps) k)
        \<longleftrightarrow> ?P pos (d # ps) 0 \<and> (\<forall>k<length ps. ?P pos (d # ps) (Suc k))"
    by (auto simp: less_Suc_eq_0_disj)
  also have "\<dots> \<longleftrightarrow> (length d < 2 ^ 32 \<and> pos < 2 ^ 32)
                     \<and> (\<forall>k<length ps. ?P (pos + length d) ps k)"
    by (simp add: add.assoc)
  finally show ?case by (simp add: Cons.IH)
qed

lemma create_ico_file:
  "create_ico png_files =
     (if \<forall>d\<in>set png_files. is_png d \<longrightarrow> 24 \<le> length d
      then
        (if retained png_files = [] then \<lparr>written = None, raised = None\<rparr>
         else if length (retained png_files) < 2 ^ 16
                 \<and> ico_fits (6 + length (retained png_files) * 16) (retained png_files)
         then \<lparr>written = Some (ico_file (retained png_files)), raised = None\<rparr>
         else \<lparr>written = None, raised = Some StructError\<rparr>)
      else \<lparr>written = None, raised = Some StructError\<rparr>)"
  by (simp add: create_ico_eq ico_file_def)

lemma create_ico_written:
  assumes "written (create_ico png_files) = Some out"
  shows "out = ico_file (retained png_files)"
    and "retained png_files \<noteq> []"
    and "length (retained png_files) < 2 ^ 16"
    and "ico_fits (6 + length (retained png_files) * 16) (retained png_files)"
    and "create_ico png_files = \<lparr>written = Some out, raised = None\<rparr>"
  using assms by (auto simp: create_ico_file split: if_splits)

lemma ico_file_header_slice:
  "n \<le> 6 \<Longrightarrow> py_slice (ico_file ps) i n
               = py_slice (le_bytes 2 0 @ le_bytes 2 1 @ le_bytes 2 (length ps)) i n"
  unfolding ico_file_def by (rule slice_append_left) simp

lemma ico_file_header:
  "le16_at (ico_file ps) 0 = 0"
  "le16_at (ico_file ps) 2 = 1"
  "length ps < 2 ^ 16 \<Longrightarrow> le16_at (ico_file ps) 4 = length ps"
proof -
  let ?h = "le_bytes 2 0 @ le_bytes 2 1 @ le_bytes 2 (length ps)"
  have h: "le16_at (ico_file ps) i = le_nat (py_slice ?h i (i + 2))" if "i \<le> 4" for i
    using that by (simp add: le16_at_def ico_file_header_slice)
  show "le16_at (ico_file ps) 0 = 0"
    by (simp add: h py_slice_def le_nat_le_bytes)
  show "le16_at (ico_file ps) 2 = 1"
    by (simp add: h py_slice_def le_nat_le_bytes)
  show "le16_at (ico_file ps) 4 = length ps" if "length ps < 2 ^ 16"
    using that by (simp add: h py_slice_def le_nat_le_bytes)
qed

lemma ico_file_entry_slice:
  assumes "k < length ps" and "i + n \<le> 16"
  shows "py_slice (ico_file ps) (6 + 16 * k + i) (6 + 16 * k + i + n)
         = py_slice (ico_entry (ps ! k) (6 + length ps * 16 + length (concat (take k ps)))) i (i + n)"
proof -
  let ?h = "le_bytes 2 0 @ le_bytes 2 1 @ le_bytes 2 (length ps)"
  let ?dir = "concat (ico_dir (6 + length ps * 16) ps)"
  have "py_slice (ico_file ps) (6 + 16 * k + i) (6 + 16 * k + i + n)
        = py_slice (?h @ (?dir @ concat ps)) (length ?h + (16 * k + i)) (length ?h + (16 * k + (i + n)))"
    by (simp add: ico_file_def add.assoc)
  also have "\<dots> = py_slice (?dir @ concat ps) (16 * k + i) (16 * k + (i + n))"
    by (rule slice_append_right)
  also have "\<dots> = py_slice ?dir (16 * k + i) (16 * k + (i + n))"
    using assms by (intro slice_append_left) simp
  also have "\<dots> = py_slice (ico_entry (ps ! k) (6 + length ps * 16 + length (concat (take k ps)))) i (i + n)"
    using assms by (rule slice_ico_dir)
  finally show ?thesis .
qed

lemma ico_entry_fields:
  "py_slice (ico_entry d pos) 0 (0 + 1)
   = le_bytes 1 (if be32_at d 16 < 256 then be32_at d 16 else 0)"
  "py_slice (ico_entry d pos) 1 (1 + 1)
   = le_bytes 1 (if be32_at d 20 < 256 then be32_at d 20 else 0)"
  "py_slice (ico_entry d pos) 2 (2 + 1) = le_bytes 1 0"
  "py_slice (ico_entry d pos) 3 (3 + 1) = le_bytes 1 0"
  "py_slice (ico_entry d pos) 4 (4 + 2) = le_bytes 2 1"
  "py_slice (ico_entry d pos) 6 (6 + 2) = le_bytes 2 32"
  "py_slice (ico_entry d pos) 8 (8 + 4) = le_bytes 4 (length d)"
  "py_slice (ico_entry d pos) 12 (12 + 4) = le_bytes 4 pos"
  by (simp_all add: ico_entry_def py_slice_def)

lemma ico_file_data: "drop (6 + 16 * length ps) (ico_file ps) = concat ps"
  by (simp add: ico_file_def)

lemma ico_file_payload:
  assumes "k < length ps"
  shows "py_slice (ico_file ps) (6 + 16 * length ps + length (concat (take k ps)))
           (6 + 16 * length ps + length (concat (take k ps)) + length (ps ! k))
         = ps ! k"
proof -
  let ?pre = "(le_bytes 2 0 @ le_bytes 2 1 @ le_bytes 2 (length ps))
              @ concat (ico_dir (6 + length ps * 16) ps)"
  have l: "length ?pre = 6 + 16 * length ps" by simp
  have "py_slice (?pre @ concat ps) (length ?pre + length (concat (take k ps)))
          (length ?pre + (length (concat (take k ps)) + length (ps ! k)))
        = py_slice (concat ps) (length (concat (take k ps)))
            (length (concat (take k ps)) + length (ps ! k))"
    by (rule slice_append_right)
  then show ?thesis
    unfolding l ico_file_def using slice_concat_nth [OF assms] by (simp add: add.assoc)
qed


lemma ico_file_le32:
  assumes "k < length ps" and "ico_fits (6 + length ps * 16) ps"
  shows "le32_at (ico_file ps) (6 + 16 * k + 8) = length (ps ! k)"
    and "le32_at (ico_file ps) (6 + 16 * k + 12) = 6 + 16 * length ps + length (concat (take k ps))"
proof -
  from ico_fits_nth [OF assms(2,1)]
  have a: "length (ps ! k) < 256 ^ 4" and b: "6 + length ps * 16 + length (concat (take k ps)) < 256 ^ 4"
    by simp_all
  show "le32_at (ico_file ps) (6 + 16 * k + 8) = length (ps ! k)"
    unfolding le32_at_def
    by (simp only: ico_file_entry_slice [OF assms(1)] ico_entry_fields le_nat_le_bytes_small [OF a])
  show "le32_at (ico_file ps) (6 + 16 * k + 12) = 6 + 16 * length ps + length (concat (take k ps))"
    unfolding le32_at_def
    by (simp only: ico_file_entry_slice [OF assms(1)] ico_entry_fields le_nat_le_bytes_small [OF b])
qed

lemma ico_file_small_fields:
  assumes "k < length ps"
  shows "u8_at (ico_file ps) (6 + 16 * k + 0)
         = (if be32_at (ps ! k) 16 < 256 then be32_at (ps ! k) 16 else 0)"
    and "u8_at (ico_file ps) (6 + 16 * k + 1)
         = (if be32_at (ps ! k) 20 < 256 then be32_at (ps ! k) 20 else 0)"
    and "u8_at (ico_file ps) (6 + 16 * k + 2) = 0"
    and "u8_at (ico_file ps) (6 + 16 * k + 3) = 0"
    and "le16_at (ico_file ps) (6 + 16 * k + 4) = 1"
    and "le16_at (ico_file ps) (6 + 16 * k + 6) = 32"
  unfolding u8_at_def le16_at_def
  by (simp_all only: ico_file_entry_slice [OF assms] ico_entry_fields le_nat_le_bytes) simp_all

text \<open>
  Claim C2 says that for every input that yields \<open>N \<ge> 1\<close> PNG images \<open>create_ico\<close>
  produces the header, the offsets and the payloads. It does not for every such input:
  a buffer that is the signature and nothing more makes \<open>struct.unpack\<close> raise, and
  65536 images, each with its header region, make \<^verbatim>\<open>struct.pack('<HHH', ...)\<close> raise,
  since the count does not fit a 16-bit field. No file is written in either case.
\<close>

theorem create_ico_raises_cex:
  "is_png png_signature
   \<and> create_ico [png_signature] = \<lparr>written = None, raised = Some StructError\<rparr>
   \<and> retained (replicate 65536 (png_stub 16 16)) = replicate 65536 (png_stub 16 16)
   \<and> length (png_stub 16 16) = 24
   \<and> create_ico (replicate 65536 (png_stub 16 16)) = \<lparr>written = None, raised = Some StructError\<rparr>"
proof -
  have "length png_signature < 24" by (simp add: png_signature_def)
  then have a: "create_ico [png_signature] = \<lparr>written = None, raised = Some StructError\<rparr>"
    using create_ico_raises [of png_signature "[png_signature]"] is_png_signature by simp
  have r: "retained (replicate 65536 (png_stub 16 16)) = replicate 65536 (png_stub 16 16)"
    by (simp add: retained_def is_png_stub)
  have "\<forall>d\<in>set (replicate 65536 (png_stub 16 16)). is_png d \<longrightarrow> 24 \<le> length d"
    by (simp add: length_png_stub)
  then have b: "create_ico (replicate 65536 (png_stub 16 16))
                = \<lparr>written = None, raised = Some StructError\<rparr>"
    by (simp add: create_ico_file r)
  from a b r is_png_signature length_png_stub show ?thesis by simp
qed

text \<open>
  Claim C2 as amended: for every input that yields \<open>N \<ge> 1\<close> retained images, in which
  each buffer that starts with the PNG signature has at least 24 bytes, with
  \<open>N \<le> 65535\<close>, and in which the length of each payload and the offset at which each
  payload starts (\<open>6 + 16 N\<close> plus the lengths of the payloads before it) fit 32 bits,
  \<open>create_ico\<close> raises nothing and writes a file whose header reads reserved 0, type 1
  and count \<open>N\<close> (little-endian, 16 bits each); the offset field of directory entry \<open>k\<close>
  is \<open>6 + 16 N\<close> plus the lengths of the payloads before it, its size field is the length
  of payload \<open>k\<close>, and the bytes of the file at that offset, for that size, are the \<open>k\<close>-th
  retained buffer. For every other input that yields \<open>N \<ge> 1\<close> retained images the call
  raises \<open>struct.error\<close> and writes no file.
\<close>

theorem create_ico_layout:
  assumes some: "1 \<le> length (retained png_files)"
  shows "((\<forall>d\<in>set png_files. is_png d \<longrightarrow> 24 \<le> length d)
          \<and> length (retained png_files) < 2 ^ 16
          \<and> (\<forall>k<length (retained png_files).
                length (retained png_files ! k) < 2 ^ 32
                \<and> 6 + 16 * length (retained png_files)
                    + sum_list (map length (take k (retained png_files))) < 2 ^ 32)
          \<longrightarrow>
          (\<exists>out. create_ico png_files = \<lparr>written = Some out, raised = None\<rparr>
             \<and> le16_at out 0 = 0 \<and> le16_at out 2 = 1
             \<and> le16_at out 4 = length (retained png_files)
             \<and> (\<forall>k<length (retained png_files).
                   le32_at out (6 + 16 * k + 12)
                   = 6 + 16 * length (retained png_files)
                     + sum_list (map length (take k (retained png_files)))
                 \<and> le32_at out (6 + 16 * k + 8) = length (retained png_files ! k)
                 \<and> py_slice out (le32_at out (6 + 16 * k + 12))
                      (le32_at out (6 + 16 * k + 12) + le32_at out (6 + 16 * k + 8))
                    = retained png_files ! k)))
       \<and> (\<not> ((\<forall>d\<in>set png_files. is_png d \<longrightarrow> 24 \<le> length d)
               \<and> length (retained png_files) < 2 ^ 16
               \<and> (\<forall>k<length (retained png_files).
                     length (retained png_files ! k) < 2 ^ 32
                     \<and> 6 + 16 * length (retained png_files)
                         + sum_list (map length (take k (retained png_files))) < 2 ^ 32))
          \<longrightarrow> create_ico png_files = \<lparr>written = None, raised = Some StructError\<rparr>)"
proof -
  let ?ps = "retained png_files"
  let ?out = "ico_file ?ps"
  let ?long = "\<forall>d\<in>set png_files. is_png d \<longrightarrow> 24 \<le> length d"
  let ?offs = "\<forall>k<length ?ps. length (?ps ! k) < 2 ^ 32
                 \<and> 6 + 16 * length ?ps + sum_list (map length (take k ?ps)) < 2 ^ 32"
  have ne: "?ps \<noteq> []" using some by auto
  have fit: "ico_fits (6 + length ?ps * 16) ?ps \<longleftrightarrow> ?offs"
    by (simp add: ico_fits_conv mult.commute)
  have run: "create_ico png_files =
               (if ?long \<and> length ?ps < 2 ^ 16 \<and> ?offs
                then \<lparr>written = Some ?out, raised = None\<rparr>
                else \<lparr>written = None, raised = Some StructError\<rparr>)"
    unfolding create_ico_file fit using ne by simp
  have layout: "\<exists>out. create_ico png_files = \<lparr>written = Some out, raised = None\<rparr>
             \<and> le16_at out 0 = 0 \<and> le16_at out 2 = 1
             \<and> le16_at out 4 = length ?ps
             \<and> (\<forall>k<length ?ps.
                   le32_at out (6 + 16 * k + 12)
                   = 6 + 16 * length ?ps + sum_list (map length (take k ?ps))
                 \<and> le32_at out (6 + 16 * k + 8) = length (?ps ! k)
                 \<and> py_slice out (le32_at out (6 + 16 * k + 12))
                      (le32_at out (6 + 16 * k + 12) + le32_at out (6 + 16 * k + 8))
                    = ?ps ! k)"
    if long: ?long and count: "length ?ps < 2 ^ 16" and offs: ?offs
  proof -
    from offs have f: "ico_fits (6 + length ?ps * 16) ?ps"
      by (simp only: fit)
    have w: "create_ico png_files = \<lparr>written = Some ?out, raised = None\<rparr>"
      unfolding run using long count offs by (intro if_P conjI)
    have entry: "le32_at ?out (6 + 16 * k + 12)
                   = 6 + 16 * length ?ps + sum_list (map length (take k ?ps))
                 \<and> le32_at ?out (6 + 16 * k + 8) = length (?ps ! k)
                 \<and> py_slice ?out (le32_at ?out (6 + 16 * k + 12))
                      (le32_at ?out (6 + 16 * k + 12) + le32_at ?out (6 + 16 * k + 8))
                    = ?ps ! k"
      if k: "k < length ?ps" for k
      by (simp only: ico_file_le32 [OF k f] length_concat
            ico_file_payload [OF k, unfolded length_concat] simp_thms)
    from w entry ico_file_header [of ?ps] count show ?thesis by blast
  qed
  have fails: "create_ico png_files = \<lparr>written = None, raised = Some StructError\<rparr>"
    if "\<not> (?long \<and> length ?ps < 2 ^ 16 \<and> ?offs)"
    unfolding run using that by (rule if_not_P)
  from layout fails show ?thesis by blast
qed

theorem create_ico_layout_witness:
  "\<not> is_png not_png
   \<and> 24 \<le> length (png_stub 32 32) \<and> 24 \<le> length (png_stub 256 256)
   \<and> retained [png_stub 32 32, not_png, png_stub 256 256] = [png_stub 32 32, png_stub 256 256]
   \<and> 1 \<le> length (retained [png_stub 32 32, not_png, png_stub 256 256])
   \<and> length (retained [png_stub 32 32, not_png, png_stub 256 256]) < 2 ^ 16
   \<and> length (png_stub 32 32) < 2 ^ 32 \<and> length (png_stub 256 256) < 2 ^ 32
   \<and> 6 + 16 * 2 + length (png_stub 32 32) < 2 ^ 32
   \<and> (\<exists>out. create_ico [png_stub 32 32, not_png, png_stub 256 256]
               = \<lparr>written = Some out, raised = None\<rparr>
           \<and> le16_at out 0 = 0 \<and> le16_at out 2 = 1 \<and> le16_at out 4 = 2
           \<and> le32_at out (6 + 16 * 0 + 12) = 38 \<and> le32_at out (6 + 16 * 0 + 8) = 24
           \<and> py_slice out 38 (38 + 24) = png_stub 32 32
           \<and> le32_at out (6 + 16 * 1 + 12) = 62 \<and> le32_at out (6 + 16 * 1 + 8) = 24
           \<and> py_slice out 62 (62 + 24) = png_stub 256 256)
   \<and> 1 \<le> length (retained [png_signature]) \<and> is_png png_signature
   \<and> length png_signature < 24
   \<and> create_ico [png_signature] = \<lparr>written = None, raised = Some StructError\<rparr>"
proof -
  let ?W = "[png_stub 32 32, not_png, png_stub 256 256]"
  have r: "retained ?W = [png_stub 32 32, png_stub 256 256]"
    by (simp add: retained_def is_png_stub not_is_png_not_png)
  have long: "\<forall>d\<in>set ?W. is_png d \<longrightarrow> 24 \<le> length d"
    by (simp add: length_png_stub not_is_png_not_png)
  have some: "1 \<le> length (retained ?W)" and count: "length (retained ?W) < 2 ^ 16"
    by (simp_all add: r)
  have offs: "\<forall>k<length (retained ?W). length (retained ?W ! k) < 2 ^ 32
                \<and> 6 + 16 * length (retained ?W)
                    + sum_list (map length (take k (retained ?W))) < 2 ^ 32"
    by (auto simp: r length_png_stub less_Suc_eq)
  from create_ico_layout [OF some, THEN conjunct1, THEN mp, OF conjI [OF long conjI [OF count offs]]]
  obtain out where run: "create_ico ?W = \<lparr>written = Some out, raised = None\<rparr>"
    and hd: "le16_at out 0 = 0" "le16_at out 2 = 1" "le16_at out 4 = length (retained ?W)"
    and en: "\<forall>k<length (retained ?W).
                 le32_at out (6 + 16 * k + 12)
                 = 6 + 16 * length (retained ?W) + sum_list (map length (take k (retained ?W)))
               \<and> le32_at out (6 + 16 * k + 8) = length (retained ?W ! k)
               \<and> py_slice out (le32_at out (6 + 16 * k + 12))
                    (le32_at out (6 + 16 * k + 12) + le32_at out (6 + 16 * k + 8))
                  = retained ?W ! k"
    by blast
  from en have e0: "le32_at out (6 + 16 * 0 + 12) = 38 \<and> le32_at out (6 + 16 * 0 + 8) = 24
                    \<and> py_slice out 38 (38 + 24) = png_stub 32 32"
    by (auto simp: r length_png_stub dest!: spec [of _ 0])
  from en have e1: "le32_at out (6 + 16 * 1 + 12) = 62 \<and> le32_at out (6 + 16 * 1 + 8) = 24
                    \<and> py_slice out 62 (62 + 24) = png_stub 256 256"
    by (auto simp: r length_png_stub dest!: spec [of _ 1])
  from hd(3) have c: "le16_at out 4 = 2" by (simp add: r)
  from run hd(1,2) c e0 e1 have ex: "\<exists>out. create_ico ?W = \<lparr>written = Some out, raised = None\<rparr>
           \<and> le16_at out 0 = 0 \<and> le16_at out 2 = 1 \<and> le16_at out 4 = 2
           \<and> le32_at out (6 + 16 * 0 + 12) = 38 \<and> le32_at out (6 + 16 * 0 + 8) = 24
           \<and> py_slice out 38 (38 + 24) = png_stub 32 32
           \<and> le32_at out (6 + 16 * 1 + 12) = 62 \<and> le32_at out (6 + 16 * 1 + 8) = 24
           \<and> py_slice out 62 (62 + 24) = png_stub 256 256"
    by (intro exI [of _ out] conjI) simp_all
  have sizes: "24 \<le> length (png_stub 32 32)" "24 \<le> length (png_stub 256 256)"
    "length (png_stub 32 32) < 2 ^ 32" "length (png_stub 256 256) < 2 ^ 32"
    "6 + 16 * 2 + length (png_stub 32 32) < 2 ^ 32"
    by (simp_all add: length_png_stub)
  have s1: "1 \<le> length (retained [png_signature])"
    by (simp add: retained_def is_png_signature)
  have short: "length png_signature < 24"
    by (simp add: png_signature_def)
  have "\<not> ((\<forall>d\<in>set [png_signature]. is_png d \<longrightarrow> 24 \<le> length d)
           \<and> length (retained [png_signature]) < 2 ^ 16
           \<and> (\<forall>k<length (retained [png_signature]).
                 length (retained [png_signature] ! k) < 2 ^ 32
                 \<and> 6 + 16 * length (retained [png_signature])
                     + sum_list (map length (take k (retained [png_signature]))) < 2 ^ 32))"
    using short is_png_signature by simp
  from create_ico_layout [OF s1, THEN conjunct2, THEN mp, OF this]
  have raise: "create_ico [png_signature] = \<lparr>written = None, raised = Some StructError\<rparr>" .
  from ex sizes r some count s1 short raise is_png_signature not_is_png_not_png
  show ?thesis by (intro conjI)
qed

text \<open>
  Claim C7: in every file \<open>create_ico\<close> writes, the directory entry of the \<open>k\<close>-th
  retained image is the 16 bytes at \<open>6 + 16 k\<close>, right after the 6-byte header: a width
  byte and a height byte (0 when the dimension read from the image is 256 or more, the
  dimension itself otherwise), two zero bytes, the 16-bit fields 1 and 32, the 32-bit
  size, which is the length of the payload, and the 32-bit offset, all little-endian;
  the payloads start at \<open>6 + 16 N\<close>, so the directory is \<open>16 N\<close> bytes long.
\<close>

theorem ico_directory_entry:
  assumes w: "written (create_ico png_files) = Some out"
      and k: "k < length (retained png_files)"
  shows "u8_at out (6 + 16 * k + 0)
           = (if 256 \<le> be32_at (retained png_files ! k) 16 then 0
              else be32_at (retained png_files ! k) 16)
       \<and> u8_at out (6 + 16 * k + 1)
           = (if 256 \<le> be32_at (retained png_files ! k) 20 then 0
              else be32_at (retained png_files ! k) 20)
       \<and> u8_at out (6 + 16 * k + 2) = 0
       \<and> u8_at out (6 + 16 * k + 3) = 0
       \<and> le16_at out (6 + 16 * k + 4) = 1
       \<and> le16_at out (6 + 16 * k + 6) = 32
       \<and> le32_at out (6 + 16 * k + 8) = length (retained png_files ! k)
       \<and> le32_at out (6 + 16 * k + 12)
           = 6 + 16 * length (retained png_files)
             + sum_list (map length (take k (retained png_files)))
       \<and> drop (6 + 16 * length (retained png_files)) out = concat (retained png_files)"
proof -
  let ?ps = "retained png_files"
  note out = create_ico_written(1) [OF w] and fit = create_ico_written(4) [OF w]
  have a: "u8_at out (6 + 16 * k + 0)
           = (if 256 \<le> be32_at (?ps ! k) 16 then 0 else be32_at (?ps ! k) 16)"
    unfolding out ico_file_small_fields(1) [OF k] by simp
  have b: "u8_at out (6 + 16 * k + 1)
           = (if 256 \<le> be32_at (?ps ! k) 20 then 0 else be32_at (?ps ! k) 20)"
    unfolding out ico_file_small_fields(2) [OF k] by simp
  have c: "le32_at out (6 + 16 * k + 12)
           = 6 + 16 * length ?ps + sum_list (map length (take k ?ps))"
    unfolding out by (simp only: ico_file_le32 [OF k fit] length_concat)
  show ?thesis
    using a b c ico_file_small_fields(3-6) [OF k] ico_file_le32(1) [OF k fit]
      ico_file_data [of ?ps]
    unfolding out by blast
qed

lemma sample_ico_written:
  "written (create_ico [png_stub 300 16, not_png, png_stub 16 300])
   = Some (ico_file [png_stub 300 16, png_stub 16 300])"
proof -
  let ?W = "[png_stub 300 16, not_png, png_stub 16 300]"
  have r: "retained ?W = [png_stub 300 16, png_stub 16 300]"
    by (simp add: retained_def is_png_stub not_is_png_not_png)
  have long: "\<forall>d\<in>set ?W. is_png d \<longrightarrow> 24 \<le> length d"
    by (simp add: length_png_stub not_is_png_not_png)
  have fit: "ico_fits (6 + length (retained ?W) * 16) (retained ?W)"
    by (simp add: r length_png_stub)
  show ?thesis
    using long fit by (simp add: create_ico_file) (simp add: r)
qed

theorem ico_directory_entry_witness:
  "written (create_ico [png_stub 300 16, not_png, png_stub 16 300])
     = Some (ico_file [png_stub 300 16, png_stub 16 300])
   \<and> 0 < length (retained [png_stub 300 16, not_png, png_stub 16 300])
   \<and> u8_at (ico_file [png_stub 300 16, png_stub 16 300]) (6 + 16 * 0 + 0) = 0
   \<and> u8_at (ico_file [png_stub 300 16, png_stub 16 300]) (6 + 16 * 0 + 1) = 16
   \<and> u8_at (ico_file [png_stub 300 16, png_stub 16 300]) (6 + 16 * 0 + 2) = 0
   \<and> u8_at (ico_file [png_stub 300 16, png_stub 16 300]) (6 + 16 * 0 + 3) = 0
   \<and> le16_at (ico_file [png_stub 300 16, png_stub 16 300]) (6 + 16 * 0 + 4) = 1
   \<and> le16_at (ico_file [png_stub 300 16, png_stub 16 300]) (6 + 16 * 0 + 6) = 32
   \<and> le32_at (ico_file [png_stub 300 16, png_stub 16 300]) (6 + 16 * 0 + 8) = 24
   \<and> le32_at (ico_file [png_stub 300 16, png_stub 16 300]) (6 + 16 * 0 + 12) = 38
   \<and> drop 38 (ico_file [png_stub 300 16, png_stub 16 300])
     = png_stub 300 16 @ png_stub 16 300"
proof -
  let ?W = "[png_stub 300 16, not_png, png_stub 16 300]"
  have r: "retained ?W = [png_stub 300 16, png_stub 16 300]"
    by (simp add: retained_def is_png_stub not_is_png_not_png)
  have k: "0 < length (retained ?W)" by (simp add: r)
  have d: "be32_at (png_stub 300 16) 16 = 300" "be32_at (png_stub 300 16) 20 = 16"
    by (simp_all add: be32_at_png_stub)
  from ico_directory_entry [OF sample_ico_written k] sample_ico_written k
  show ?thesis
    by (simp add: r d length_png_stub)
qed


section \<open>Reading the dimensions\<close>

text \<open>
  Claim C6 says that for every buffer whose first 8 bytes are the PNG signature the width
  and the height are returned. For the buffer that is the signature and nothing more,
  neither script returns a dimension: \<open>struct.unpack\<close> raises on the empty slice.
\<close>

theorem png_dimensions_cex:
  "is_png png_signature \<and> read_image [] png_signature = Inl StructError
   \<and> icns_step \<lparr>entries = [], total_size = 8\<rparr> png_signature = Inl StructError"
  using is_png_signature by (simp add: read_image_eq icns_step_eq) (simp add: png_signature_def)

text \<open>
  Claim C6 as amended: for every buffer of at least 24 bytes whose first 8 bytes are the
  PNG signature, \<open>create_ico\<close> records the image with the width made of the bytes 16 to 19
  and the height made of the bytes 20 to 23, both big-endian, whatever the other bytes
  are. \<open>create_icns\<close> reads the width only: for every buffer of at least 20 bytes with the
  signature, \<^verbatim>\<open>struct.unpack('>I', data[16:20])\<close> returns the width made of the bytes
  16 to 19, and the loop body goes on with that width to the type code and to packing
  the entry length, the one step left that can raise. A buffer whose first 8 bytes are
  not the signature is left out by both, with no other effect.
\<close>

theorem png_dimensions:
  "(is_png data \<and> 24 \<le> length data \<longrightarrow>
      read_image images data
      = Inr (images @ [(unat (data ! 16) * 2 ^ 24 + unat (data ! 17) * 2 ^ 16
                          + unat (data ! 18) * 2 ^ 8 + unat (data ! 19),
                        unat (data ! 20) * 2 ^ 24 + unat (data ! 21) * 2 ^ 16
                          + unat (data ! 22) * 2 ^ 8 + unat (data ! 23),
                        data)]))
   \<and> (is_png data \<and> 20 \<le> length data \<longrightarrow>
        unpack_be32 (py_slice data 16 20)
        = Inr (unat (data ! 16) * 2 ^ 24 + unat (data ! 17) * 2 ^ 16
               + unat (data ! 18) * 2 ^ 8 + unat (data ! 19))
        \<and> icns_step st data
          = (case pack_be32 (8 + length data) of
               Inl e \<Rightarrow> Inl e
             | Inr packed \<Rightarrow>
                 Inr \<lparr>entries = entries st
                          @ [icon_type_of (unat (data ! 16) * 2 ^ 24 + unat (data ! 17) * 2 ^ 16
                                           + unat (data ! 18) * 2 ^ 8 + unat (data ! 19))
                             @ packed @ data],
                      total_size = total_size st + (8 + length data)\<rparr>))
   \<and> (\<not> is_png data \<longrightarrow> read_image images data = Inr images \<and> icns_step st data = Inr st)"
proof (intro conjI impI)
  assume h: "is_png data \<and> 24 \<le> length data"
  then have "16 + 4 \<le> length data" "20 + 4 \<le> length data" by simp_all
  from be32_at_nth [OF this(1)] be32_at_nth [OF this(2)] h
  show "read_image images data
      = Inr (images @ [(unat (data ! 16) * 2 ^ 24 + unat (data ! 17) * 2 ^ 16
                          + unat (data ! 18) * 2 ^ 8 + unat (data ! 19),
                        unat (data ! 20) * 2 ^ 24 + unat (data ! 21) * 2 ^ 16
                          + unat (data ! 22) * 2 ^ 8 + unat (data ! 23),
                        data)])"
    by (simp add: read_image_eq image_of_def)
next
  assume h: "is_png data \<and> 20 \<le> length data"
  then have "16 + 4 \<le> length data" by simp
  note w = be32_at_nth [OF this]
  from h show u: "unpack_be32 (py_slice data 16 20)
        = Inr (unat (data ! 16) * 2 ^ 24 + unat (data ! 17) * 2 ^ 16
               + unat (data ! 18) * 2 ^ 8 + unat (data ! 19))"
    by (simp add: unpack_slice16 w)
  from h have "take 8 data = png_signature" by (simp add: is_png_def)
  then show "icns_step st data
          = (case pack_be32 (8 + length data) of
               Inl e \<Rightarrow> Inl e
             | Inr packed \<Rightarrow>
                 Inr \<lparr>entries = entries st
                          @ [icon_type_of (unat (data ! 16) * 2 ^ 24 + unat (data ! 17) * 2 ^ 16
                                           + unat (data ! 18) * 2 ^ 8 + unat (data ! 19))
                             @ packed @ data],
                      total_size = total_size st + (8 + length data)\<rparr>)"
    by (simp add: icns_step_def u Let_def split: sum.splits)
next
  assume "\<not> is_png data"
  then show "read_image images data = Inr images" by (simp add: read_image_eq)
next
  assume "\<not> is_png data"
  then show "icns_step st data = Inr st" by (simp add: icns_step_eq)
qed

theorem png_dimensions_witness:
  "is_png (png_stub 300 16) \<and> 24 \<le> length (png_stub 300 16)
   \<and> 20 \<le> length (png_stub 300 16)
   \<and> read_image [] (png_stub 300 16) = Inr [(300, 16, png_stub 300 16)]
   \<and> unpack_be32 (py_slice (png_stub 300 16) 16 20) = Inr 300
   \<and> icns_step \<lparr>entries = [], total_size = 8\<rparr> (png_stub 300 16)
     = Inr \<lparr>entries = [icon_type_of 300 @ be_bytes 4 32 @ png_stub 300 16], total_size = 40\<rparr>
   \<and> \<not> is_png not_png \<and> read_image [] not_png = Inr []
   \<and> icns_step \<lparr>entries = [], total_size = 8\<rparr> not_png = Inr \<lparr>entries = [], total_size = 8\<rparr>"
proof -
  let ?d = "png_stub 300 16"
  let ?st = "\<lparr>entries = [], total_size = 8\<rparr>"
  have h: "is_png ?d" "24 \<le> length ?d" "20 \<le> length ?d"
    by (simp_all add: is_png_stub length_png_stub)
  have w: "unat (?d ! 16) * 2 ^ 24 + unat (?d ! 17) * 2 ^ 16 + unat (?d ! 18) * 2 ^ 8
           + unat (?d ! 19) = 300"
    using be32_at_nth [of 16 ?d] by (simp add: length_png_stub be32_at_png_stub)
  have hh: "unat (?d ! 20) * 2 ^ 24 + unat (?d ! 21) * 2 ^ 16 + unat (?d ! 22) * 2 ^ 8
           + unat (?d ! 23) = 16"
    using be32_at_nth [of 20 ?d] by (simp add: length_png_stub be32_at_png_stub)
  note t = png_dimensions [of ?d "[]" ?st]
  from t [THEN conjunct1] h
  have a: "read_image [] ?d = Inr [(300, 16, ?d)]"
    by (simp only: w hh) simp
  from t [THEN conjunct2, THEN conjunct1] h
  have b: "unpack_be32 (py_slice ?d 16 20) = Inr 300"
    and c: "icns_step ?st ?d
            = Inr \<lparr>entries = [icon_type_of 300 @ be_bytes 4 32 @ ?d], total_size = 40\<rparr>"
    by (simp_all only: w) (simp_all add: length_png_stub pack_be32_def)
  from png_dimensions [of not_png "[]" ?st] not_is_png_not_png
  have e: "read_image [] not_png = Inr []" "icns_step ?st not_png = Inr ?st"
    by blast+
  from h a b c e not_is_png_not_png show ?thesis by (intro conjI)
qed


section \<open>Buffers that are not PNG streams\<close>

lemma retained_idem: "retained (retained png_files) = retained png_files"
  by (simp add: retained_def)

lemma ball_retained:
  "(\<forall>d\<in>set (retained png_files). is_png d \<longrightarrow> P d) = (\<forall>d\<in>set png_files. is_png d \<longrightarrow> P d)"
  by (auto simp: retained_def)

lemma create_icns_retained: "create_icns (retained png_files) = create_icns png_files"
  unfolding create_icns_eq [of "retained png_files"] create_icns_eq [of png_files]
    retained_idem ball_retained ..

lemma create_ico_retained: "create_ico (retained png_files) = create_ico png_files"
  unfolding create_ico_file [of "retained png_files"] create_ico_file [of png_files]
    retained_idem ball_retained ..

lemma create_icns_success:
  assumes "create_icns png_files = \<lparr>written = Some out, raised = None\<rparr>"
  shows "out = bytes ''icns''
               @ be_bytes 4 (8 + (\<Sum>d\<leftarrow>retained png_files. 8 + length d))
               @ concat (map icns_entry (retained png_files))"
    and "8 + (\<Sum>d\<leftarrow>retained png_files. 8 + length d) < 2 ^ 32"
  using assms by (auto simp: create_icns_eq split: if_splits)

lemma length_ico_file: "length (ico_file ps) = 6 + 16 * length ps + length (concat ps)"
  by (simp add: ico_file_def)

text \<open>
  Claim C5: a buffer whose first 8 bytes are not the PNG signature leaves the state of
  either loop as it was and raises nothing, so each encoder does on an input exactly
  what it does on the retained buffers alone (the same file, or the same exception).
  In a file \<open>create_icns\<close> writes, the bytes after the first 8 split into entries whose
  length fields are their own lengths and whose payloads are the retained buffers, all of
  them, in input order, equal ones included; the total-length field is the length of the
  file. In a file \<open>create_ico\<close> writes, the count is the number of retained buffers, and
  the data block after the directory is the retained buffers one after the other.
\<close>

theorem skip_non_png:
  "(\<not> is_png d \<longrightarrow> icns_step st d = Inr st \<and> read_image images d = Inr images)
   \<and> create_icns png_files = create_icns (retained png_files)
   \<and> create_ico png_files = create_ico (retained png_files)
   \<and> (create_icns png_files = \<lparr>written = Some out, raised = None\<rparr> \<longrightarrow>
        (\<exists>es. drop 8 out = concat es \<and> map (drop 8) es = retained png_files
              \<and> (\<forall>e\<in>set es. be32_at e 4 = length e)
              \<and> be32_at out 4 = length out))
   \<and> (written (create_ico png_files) = Some out' \<longrightarrow>
        le16_at out' 4 = length (retained png_files)
        \<and> drop (6 + 16 * length (retained png_files)) out' = concat (retained png_files)
        \<and> length out' = 6 + 16 * length (retained png_files)
                         + length (concat (retained png_files)))"
proof (intro conjI impI)
  assume "\<not> is_png d"
  then show "icns_step st d = Inr st" by (simp add: icns_step_eq)
next
  assume "\<not> is_png d"
  then show "read_image images d = Inr images" by (simp add: read_image_eq)
next
  show "create_icns png_files = create_icns (retained png_files)"
    by (simp only: create_icns_retained)
next
  show "create_ico png_files = create_ico (retained png_files)"
    by (simp only: create_ico_retained)
next
  assume run: "create_icns png_files = \<lparr>written = Some out, raised = None\<rparr>"
  let ?ps = "retained png_files"
  let ?T = "8 + (\<Sum>d\<leftarrow>?ps. 8 + length d)"
  let ?es = "map icns_entry ?ps"
  note out = create_icns_success(1) [OF run] and fits = create_icns_success(2) [OF run]
  have a: "drop 8 out = concat ?es"
    by (simp add: out bytes_def)
  have b: "map (drop 8) ?es = ?ps"
    by (simp add: comp_def)
  have c: "\<forall>e\<in>set ?es. be32_at e 4 = length e"
    using retained_each_fits [OF fits] by (auto simp: be32_at_icns_entry)
  have "be32_at out 4 = be_nat (be_bytes 4 ?T)"
    by (simp add: out be32_at_def py_slice_def bytes_def)
  also have "\<dots> = ?T"
    using fits by (simp add: be_nat_be_bytes)
  also have "\<dots> = length out"
    by (simp add: out bytes_def length_concat comp_def)
  finally have e: "be32_at out 4 = length out" .
  from a b c e show "\<exists>es. drop 8 out = concat es \<and> map (drop 8) es = retained png_files
              \<and> (\<forall>e\<in>set es. be32_at e 4 = length e)
              \<and> be32_at out 4 = length out"
    by blast
next
  assume w: "written (create_ico png_files) = Some out'"
  note out = create_ico_written(1) [OF w] and count = create_ico_written(3) [OF w]
  show "le16_at out' 4 = length (retained png_files)"
    unfolding out using count by (rule ico_file_header(3))
  show "drop (6 + 16 * length (retained png_files)) out' = concat (retained png_files)"
    unfolding out by (rule ico_file_data)
  show "length out' = 6 + 16 * length (retained png_files)
                         + length (concat (retained png_files))"
    unfolding out by (rule length_ico_file)
qed

lemma sample_icns_run:
  "create_icns [png_stub 32 32, not_png, png_stub 32 32]
   = \<lparr>written = Some (the (written (create_icns [png_stub 32 32, not_png, png_stub 32 32]))),
      raised = None\<rparr>"
proof -
  let ?W = "[png_stub 32 32, not_png, png_stub 32 32]"
  have r: "retained ?W = [png_stub 32 32, png_stub 32 32]"
    by (simp add: retained_def is_png_stub not_is_png_not_png)
  have long: "\<forall>d\<in>set ?W. is_png d \<longrightarrow> 20 \<le> length d"
    by (simp add: length_png_stub not_is_png_not_png)
  have fits: "8 + (\<Sum>d\<leftarrow>retained ?W. 8 + length d) < 2 ^ 32"
    by (simp add: r length_png_stub)
  show ?thesis
    by (simp add: create_icns_ok [OF long fits])
qed

lemma sample_ico_run:
  "written (create_ico [png_stub 32 32, not_png, png_stub 32 32])
   = Some (the (written (create_ico [png_stub 32 32, not_png, png_stub 32 32])))"
proof -
  let ?W = "[png_stub 32 32, not_png, png_stub 32 32]"
  have r: "retained ?W = [png_stub 32 32, png_stub 32 32]"
    by (simp add: retained_def is_png_stub not_is_png_not_png)
  have long: "\<forall>d\<in>set ?W. is_png d \<longrightarrow> 24 \<le> length d"
    by (simp add: length_png_stub not_is_png_not_png)
  have fit: "ico_fits (6 + length (retained ?W) * 16) (retained ?W)"
    by (simp add: r length_png_stub)
  show ?thesis
    using long fit by (simp add: create_ico_file) (simp add: r)
qed

theorem skip_non_png_witness:
  "\<not> is_png not_png
   \<and> icns_step \<lparr>entries = [], total_size = 8\<rparr> not_png = Inr \<lparr>entries = [], total_size = 8\<rparr>
   \<and> read_image [] not_png = Inr []
   \<and> create_icns [png_stub 32 32, not_png, png_stub 32 32]
     = create_icns [png_stub 32 32, png_stub 32 32]
   \<and> create_ico [png_stub 32 32, not_png, png_stub 32 32]
     = create_ico [png_stub 32 32, png_stub 32 32]
   \<and> create_icns [png_stub 32 32, not_png, png_stub 32 32]
     = \<lparr>written = Some (the (written (create_icns [png_stub 32 32, not_png, png_stub 32 32]))),
        raised = None\<rparr>
   \<and> (\<exists>es. drop 8 (the (written (create_icns [png_stub 32 32, not_png, png_stub 32 32])))
             = concat es
           \<and> map (drop 8) es = [png_stub 32 32, png_stub 32 32]
           \<and> be32_at (es ! 0) 4 = length (es ! 0)
           \<and> be32_at (es ! 1) 4 = length (es ! 1)
           \<and> be32_at (the (written (create_icns [png_stub 32 32, not_png, png_stub 32 32]))) 4
             = length (the (written (create_icns [png_stub 32 32, not_png, png_stub 32 32]))))
   \<and> written (create_ico [png_stub 32 32, not_png, png_stub 32 32])
     = Some (the (written (create_ico [png_stub 32 32, not_png, png_stub 32 32])))
   \<and> le16_at (the (written (create_ico [png_stub 32 32, not_png, png_stub 32 32]))) 4 = 2
   \<and> drop 38 (the (written (create_ico [png_stub 32 32, not_png, png_stub 32 32])))
     = png_stub 32 32 @ png_stub 32 32
   \<and> length (the (written (create_ico [png_stub 32 32, not_png, png_stub 32 32]))) = 86"
proof -
  let ?W = "[png_stub 32 32, not_png, png_stub 32 32]"
  let ?st = "\<lparr>entries = [], total_size = 8\<rparr>"
  have r: "retained ?W = [png_stub 32 32, png_stub 32 32]"
    by (simp add: retained_def is_png_stub not_is_png_not_png)
  note t = skip_non_png [of not_png ?st "[]" ?W "the (written (create_icns ?W))"
      "the (written (create_ico ?W))"]
  note t1 = t [THEN conjunct1] and t2 = t [THEN conjunct2, THEN conjunct1]
    and t3 = t [THEN conjunct2, THEN conjunct2, THEN conjunct1]
    and t4 = t [THEN conjunct2, THEN conjunct2, THEN conjunct2, THEN conjunct1]
    and t5 = t [THEN conjunct2, THEN conjunct2, THEN conjunct2, THEN conjunct2]
  from t1 not_is_png_not_png
  have a: "icns_step ?st not_png = Inr ?st" "read_image [] not_png = Inr []"
    by blast+
  from t2 t3 have b: "create_icns ?W = create_icns [png_stub 32 32, png_stub 32 32]"
    "create_ico ?W = create_ico [png_stub 32 32, png_stub 32 32]"
    by (simp_all only: r)
  from t4 [THEN mp, OF sample_icns_run]
  obtain es where es: "drop 8 (the (written (create_icns ?W))) = concat es"
    "map (drop 8) es = retained ?W" "\<forall>e\<in>set es. be32_at e 4 = length e"
    "be32_at (the (written (create_icns ?W))) 4 = length (the (written (create_icns ?W)))"
    by blast
  from es(2) have "length (map (drop 8) es) = 2" by (simp add: r)
  then have "es ! 0 \<in> set es" "es ! 1 \<in> set es" by simp_all
  with es(3) have e01: "be32_at (es ! 0) 4 = length (es ! 0)" "be32_at (es ! 1) 4 = length (es ! 1)"
    by blast+
  from es(2) have es2: "map (drop 8) es = [png_stub 32 32, png_stub 32 32]"
    by (simp only: r)
  from es(1) es2 e01 es(4)
  have c: "\<exists>es. drop 8 (the (written (create_icns ?W))) = concat es
           \<and> map (drop 8) es = [png_stub 32 32, png_stub 32 32]
           \<and> be32_at (es ! 0) 4 = length (es ! 0)
           \<and> be32_at (es ! 1) 4 = length (es ! 1)
           \<and> be32_at (the (written (create_icns ?W))) 4 = length (the (written (create_icns ?W)))"
    by (intro exI [of _ es] conjI)
  from t5 [rule_format, OF sample_ico_run]
  have d: "le16_at (the (written (create_ico ?W))) 4 = 2"
    "drop 38 (the (written (create_ico ?W))) = png_stub 32 32 @ png_stub 32 32"
    "length (the (written (create_ico ?W))) = 86"
    by (simp_all add: r length_png_stub)
  from a b c d sample_icns_run sample_ico_run not_is_png_not_png show ?thesis
    by (intro conjI)
qed

end

